theory Spec2Isabelle
  imports Complex_Main
begin

section \<open>Python strings\<close>

text \<open>
  A Python \<^verbatim>\<open>str\<close> is a sequence of Unicode code points. The sanitizer's table holds
  characters beyond Latin-1 (the root, integral and nabla signs), so a character is its
  code point, a natural number, and a string is a list of them. ASCII literals are
  written through \<open>asc\<close>.
\<close>

type_synonym ustr = "nat list"

definition asc :: "string \<Rightarrow> ustr" where
  "asc s = map of_char s"

text \<open>\<^verbatim>\<open>str.isspace\<close> on one character; the same predicate decides \<^verbatim>\<open>\s\<close> in a
  \<^verbatim>\<open>str\<close> pattern and what \<^verbatim>\<open>str.strip()\<close> removes.\<close>

definition isspace :: "nat \<Rightarrow> bool" where
  "isspace c = (c \<in> set [9, 10, 11, 12, 13, 28, 29, 30, 31, 32, 133, 160, 5760,
     8192, 8193, 8194, 8195, 8196, 8197, 8198, 8199, 8200, 8201, 8202,
     8232, 8233, 8239, 8287, 12288])"

text \<open>\<^verbatim>\<open>s.startswith(p)\<close>.\<close>

fun starts_with :: "ustr \<Rightarrow> ustr \<Rightarrow> bool" where
  "starts_with s [] = True"
| "starts_with [] (p # ps) = False"
| "starts_with (c # cs) (p # ps) = (c = p \<and> starts_with cs ps)"

text \<open>\<^verbatim>\<open>p in s\<close> for strings: \<open>p\<close> occurs in \<open>s\<close> as a contiguous substring.\<close>

fun contains :: "ustr \<Rightarrow> ustr \<Rightarrow> bool" where
  "contains [] p = (p = [])"
| "contains (c # cs) p = (starts_with (c # cs) p \<or> contains cs p)"

text \<open>\<^verbatim>\<open>s.replace(old, new)\<close>: every occurrence of \<open>old\<close>, found left to right without
  overlap, becomes \<open>new\<close>. With an empty \<open>old\<close> Python puts \<open>new\<close> before every character
  and at the end.\<close>

function str_replace :: "ustr \<Rightarrow> ustr \<Rightarrow> ustr \<Rightarrow> ustr" where
  "str_replace [] old new = (if old = [] then new else [])"
| "str_replace (c # cs) old new =
     (if old = [] then new @ c # str_replace cs old new
      else if starts_with (c # cs) old
        then new @ str_replace (drop (length old) (c # cs)) old new
      else c # str_replace cs old new)"
  by pat_completeness auto
termination
  by (relation "measure (\<lambda>(s, old, new). length s)") (auto simp: neq_Nil_conv)

text \<open>\<^verbatim>\<open>s.strip()\<close>: leading and trailing whitespace removed.\<close>

definition strip :: "ustr \<Rightarrow> ustr" where
  "strip s = rev (dropWhile isspace (rev (dropWhile isspace s)))"

text \<open>\<^verbatim>\<open>s.split(sep)\<close> for a one-character separator; the result is never empty.\<close>

fun split :: "ustr \<Rightarrow> nat \<Rightarrow> ustr list" where
  "split [] sep = [[]]"
| "split (c # cs) sep =
     (if c = sep then [] # split cs sep
      else (case split cs sep of w # ws \<Rightarrow> (c # w) # ws | [] \<Rightarrow> [[c]]))"

section \<open>The regular expressions of the OCR service\<close>

text \<open>
  Both patterns of \<^verbatim>\<open>services/ocr.py\<close> are written as one bracket expression, but the
  first unescaped \<^verbatim>\<open>]\<close> closes the set early: \<^verbatim>\<open>[^0-9+\-*/=()[]\<close> is the whole set, and
  what follows is a sequence: the literal \<^verbatim>\<open>{\<close>, the literal \<^verbatim>\<open>}\<close>, the anchor \<^verbatim>\<open>^\<close>, the
  remaining characters as literals, \<^verbatim>\<open>.\<close> as the wildcard, and the literals \<^verbatim>\<open>,\<close> and \<^verbatim>\<open>]\<close>.
  The model is the parsed pattern: a sequence of items, matched without backtracking
  since no item repeats or branches.
\<close>

datatype re_item =
    InSet "(nat \<times> nat) list"
  | NotInSet "(nat \<times> nat) list"
  | Literal nat
  | AtBeginning
  | AnyChar

definition in_ranges :: "(nat \<times> nat) list \<Rightarrow> nat \<Rightarrow> bool" where
  "in_ranges rs c = list_ex (\<lambda>(lo, hi). lo \<le> c \<and> c \<le> hi) rs"

fun item_accepts :: "re_item \<Rightarrow> nat \<Rightarrow> bool" where
  "item_accepts (InSet rs) c = in_ranges rs c"
| "item_accepts (NotInSet rs) c = (\<not> in_ranges rs c)"
| "item_accepts (Literal l) c = (c = l)"
| "item_accepts AnyChar c = (c \<noteq> 10)"
| "item_accepts AtBeginning c = False"

text \<open>\<open>re_match r pos s\<close>: the pattern \<open>r\<close> tried at the text position \<open>pos\<close>, where \<open>s\<close> is
  the text from that position on; the result is the number of characters matched.
  The anchor holds at position 0 only (no \<^verbatim>\<open>MULTILINE\<close> flag is given).\<close>

fun re_match :: "re_item list \<Rightarrow> nat \<Rightarrow> ustr \<Rightarrow> nat option" where
  "re_match [] pos s = Some 0"
| "re_match (AtBeginning # r) pos s = (if pos = 0 then re_match r pos s else None)"
| "re_match (i # r) pos [] = None"
| "re_match (i # r) pos (c # s) =
     (if item_accepts i c then map_option Suc (re_match r (Suc pos) s) else None)"

text \<open>\<^verbatim>\<open>re.sub(r, '', s)\<close>: every match, found left to right, is deleted.\<close>

fun re_sub_empty :: "re_item list \<Rightarrow> nat \<Rightarrow> ustr \<Rightarrow> ustr" where
  "re_sub_empty r pos [] = []"
| "re_sub_empty r pos (c # s) =
     (case re_match r pos (c # s) of
        Some (Suc n) \<Rightarrow> re_sub_empty r (pos + Suc n) (drop n s)
      | _ \<Rightarrow> c # re_sub_empty r (Suc pos) s)"

text \<open>\<^verbatim>\<open>len(re.findall(r, s))\<close>.\<close>

fun re_findall_count :: "re_item list \<Rightarrow> nat \<Rightarrow> ustr \<Rightarrow> nat" where
  "re_findall_count r pos [] = 0"
| "re_findall_count r pos (c # s) =
     (case re_match r pos (c # s) of
        Some (Suc n) \<Rightarrow> Suc (re_findall_count r (pos + Suc n) (drop n s))
      | _ \<Rightarrow> re_findall_count r (Suc pos) s)"

definition math_set :: "(nat \<times> nat) list" where
  "math_set = [(48, 57), (43, 43), (45, 45), (42, 42), (47, 47), (61, 61),
     (40, 40), (41, 41), (91, 91)]"

definition math_symbols :: ustr where
  "math_symbols = [8730, 960, 8747, 8721, 8706, 8710, 8711]"

text \<open>The pattern of the last substitution of \<^verbatim>\<open>_clean_math_text\<close>.\<close>

definition non_math_pattern :: "re_item list" where
  "non_math_pattern =
     NotInSet math_set # Literal 123 # Literal 125 # AtBeginning #
     map Literal (math_symbols @
       asc ''abcdefghijklmnopqrstuvwxyzABCDEFGHIJKLMNOPQRSTUVWXYZ'') @
     [AnyChar, Literal 44, Literal 93]"

text \<open>The pattern counted by \<^verbatim>\<open>_calculate_confidence\<close>.\<close>

definition math_char_pattern :: "re_item list" where
  "math_char_pattern =
     InSet math_set # Literal 123 # Literal 125 # AtBeginning #
     map Literal math_symbols @ [Literal 93]"

section \<open>TextSanitizer: \<^verbatim>\<open>OCRService._clean_math_text\<close>\<close>

text \<open>The substitution table, in the insertion order of the dictionary, which is the
  order the loop applies it in.\<close>

definition replacements :: "(ustr \<times> ustr) list" where
  "replacements =
    [(asc ''x'', asc ''*''),
     ([215], asc ''*''),
     ([247], asc ''/''),
     ([8722], asc ''-''),
     ([8211], asc ''-''),
     (asc ''='', asc ''=''),
     (asc ''('', asc ''(''),
     (asc '')'', asc '')''),
     (asc ''['', asc ''(''),
     (asc '']'', asc '')''),
     (asc ''{'', asc ''(''),
     (asc ''}'', asc '')''),
     (asc ''sqrt'', [8730]),
     (asc ''pi'', [960]),
     (asc ''int'', [8747]),
     (asc ''sum'', [8721]),
     (asc ''partial'', [8706]),
     (asc ''delta'', [8710]),
     (asc ''nabla'', [8711]),
     (asc ''ln'', asc ''log''),
     (asc ''log10'', asc ''log''),
     (asc ''sin'', asc ''sin''),
     (asc ''cos'', asc ''cos''),
     (asc ''tan'', asc ''tan''),
     (asc ''arcsin'', asc ''asin''),
     (asc ''arccos'', asc ''acos''),
     (asc ''arctan'', asc ''atan'')]"

text \<open>The loop \<^verbatim>\<open>for old, new in replacements.items(): text = text.replace(old, new)\<close>.\<close>

fun apply_replacements :: "(ustr \<times> ustr) list \<Rightarrow> ustr \<Rightarrow> ustr" where
  "apply_replacements [] text = text"
| "apply_replacements ((old, new) # rs) text = apply_replacements rs (str_replace text old new)"

definition clean_math_text :: "ustr \<Rightarrow> ustr" where
  "clean_math_text text =
     (let text = filter (\<lambda>c. \<not> isspace c) text;
          text = apply_replacements replacements text;
          text = re_sub_empty non_math_pattern 0 text
      in strip text)"

text \<open>\<^verbatim>\<open>OCRService._calculate_confidence\<close>. Python computes in floating point; the score
  is modelled over the reals.\<close>

definition calculate_confidence :: "ustr \<Rightarrow> ustr \<Rightarrow> real" where
  "calculate_confidence original_text cleaned_text =
     (if cleaned_text = [] then 0
      else
        let length_ratio = real (length cleaned_text) / real (max (length original_text) 1);
            math_chars = re_findall_count math_char_pattern 0 cleaned_text;
            math_ratio = real math_chars / real (max (length cleaned_text) 1);
            confidence = (length_ratio * 0.4 + math_ratio * 0.6) * 100
        in min confidence 100)"

section \<open>Exceptions and the external capabilities\<close>

text \<open>A Python exception caught by \<^verbatim>\<open>except Exception\<close>, with the text \<^verbatim>\<open>str(e)\<close>.\<close>

datatype py_exception = Exception ustr

text \<open>\<^verbatim>\<open>HTTPException(status_code, detail)\<close> of the web framework.\<close>

datatype http_exception = HTTPException nat ustr

text \<open>Sequencing of calls that may raise: the first exception ends the block.\<close>

definition on_success :: "'x + 'a \<Rightarrow> ('a \<Rightarrow> 'x + 'b) \<Rightarrow> 'x + 'b" where
  "on_success m f = (case m of Inl e \<Rightarrow> Inl e | Inr a \<Rightarrow> f a)"

fun map_result :: "('a \<Rightarrow> 'x + 'b) \<Rightarrow> 'a list \<Rightarrow> 'x + 'b list" where
  "map_result f [] = Inr []"
| "map_result f (a # as) =
     on_success (f a) (\<lambda>b. on_success (map_result f as) (\<lambda>bs. Inr (b # bs)))"

datatype symbol = Symbol ustr

text \<open>
  The image library, the recognizer, SymPy and NumPy are not part of the repository.
  Every operation the code calls on them is a field of this record, and every one may
  raise. \<open>'e\<close> is the type of SymPy expressions, \<open>'s\<close> of the objects \<^verbatim>\<open>sp.solve\<close> returns,
  \<open>'n\<close> of NumPy numbers.

  \<^item> \<open>open_image\<close>: \<^verbatim>\<open>base64.b64decode\<close>, \<^verbatim>\<open>Image.open\<close> and \<^verbatim>\<open>convert('L')\<close>, giving the rows of
    8-bit grey values;
  \<^item> \<open>image_to_string\<close>: \<^verbatim>\<open>pytesseract.image_to_string\<close> with the service's configuration;
  \<^item> \<open>list_of_set\<close>: Python's \<^verbatim>\<open>list(S)\<close> on a set, the elements in the set's iteration order;
  \<^item> \<open>lambdify\<close>: \<^verbatim>\<open>sp.lambdify(sym, expr, "numpy")\<close>, the result applied to an array and
    iterated;
  \<^item> \<open>Float_bool\<close>: the truth value of \<^verbatim>\<open>sp.Float(v)\<close>; \<open>to_float\<close>: \<^verbatim>\<open>float(v)\<close>.
\<close>

record ('e, 's, 'n) external =
  open_image :: "ustr \<Rightarrow> py_exception + nat list list"
  image_to_string :: "nat list list \<Rightarrow> py_exception + ustr"
  sympify :: "ustr \<Rightarrow> py_exception + 'e"
  Eq :: "'e \<Rightarrow> 'e \<Rightarrow> py_exception + 'e"
  Integer_zero :: "'e"
  is_Equality :: "'e \<Rightarrow> bool"
  free_symbols :: "'e \<Rightarrow> py_exception + symbol set"
  list_of_set :: "symbol set \<Rightarrow> symbol list"
  solve :: "'e \<Rightarrow> symbol \<Rightarrow> py_exception + 's"
  solve_system :: "'e list \<Rightarrow> symbol list \<Rightarrow> py_exception + 's"
  latex :: "'s \<Rightarrow> py_exception + ustr"
  pretty :: "'e \<Rightarrow> py_exception + ustr"
  str_expr :: "'e \<Rightarrow> py_exception + ustr"
  str_symbol :: "symbol \<Rightarrow> ustr"
  str_solution :: "'s \<Rightarrow> py_exception + ustr"
  lambdify :: "symbol \<Rightarrow> 'e \<Rightarrow> py_exception + ('n list \<Rightarrow> py_exception + 'n list)"
  linspace :: "int \<Rightarrow> int \<Rightarrow> nat \<Rightarrow> 'n list"
  Float_bool :: "'n \<Rightarrow> py_exception + bool"
  to_float :: "'n \<Rightarrow> py_exception + 'n"

section \<open>ImageNormalizer and recognition: \<^verbatim>\<open>OCRService.extract_math_from_image\<close>\<close>

text \<open>\<^verbatim>\<open>_enhance_image\<close>: \<^verbatim>\<open>np.where(img_array > 128, 255, 0)\<close>.\<close>

definition enhance_image :: "nat list list \<Rightarrow> nat list list" where
  "enhance_image img = map (map (\<lambda>p. if 128 < p then 255 else 0)) img"

text \<open>\<^verbatim>\<open>image_base64.split(',')[1] if ',' in image_base64 else image_base64\<close>: the
  data-URI header is dropped.\<close>

definition base64_part :: "ustr \<Rightarrow> ustr" where
  "base64_part image_base64 =
     (if contains image_base64 (asc '','') then split image_base64 44 ! 1 else image_base64)"

text \<open>Any exception of the block is caught and the pair \<^verbatim>\<open>("", 0.0)\<close> returned.\<close>

definition extract_math_from_image :: "('e, 's, 'n) external \<Rightarrow> ustr \<Rightarrow> ustr \<times> real" where
  "extract_math_from_image E image_base64 =
     (case
        on_success
          (open_image E (base64_part image_base64))
          (\<lambda>img.
             on_success (image_to_string E (enhance_image img))
               (\<lambda>t.
                  let cleaned_text = clean_math_text t;
                      confidence = calculate_confidence t cleaned_text
                  in Inr (cleaned_text, confidence)))
      of Inl e \<Rightarrow> ([], 0)
       | Inr r \<Rightarrow> r)"

section \<open>Classification and solver dispatch: \<^verbatim>\<open>MathSolverService.solve_generic\<close>\<close>

text \<open>\<^verbatim>\<open>sep.join(parts)\<close>.\<close>

fun join :: "ustr \<Rightarrow> ustr list \<Rightarrow> ustr" where
  "join sep [] = []"
| "join sep [p] = p"
| "join sep (p # q # ps) = p @ sep @ join sep (q # ps)"

text \<open>The text of a list in an f-string: the elements' texts between brackets.\<close>

definition str_list :: "ustr list \<Rightarrow> ustr" where
  "str_list ps = asc ''['' @ join (asc '', '') ps @ asc '']''"

text \<open>The condition of the system branch.\<close>

definition is_system :: "ustr \<Rightarrow> bool" where
  "is_system expression =
     (contains expression (asc '';'') \<or>
      (contains expression (asc '','') \<and> \<not> contains expression (asc ''['')))"

text \<open>One element of the list \<^verbatim>\<open>eqs\<close>.\<close>

definition parse_part :: "('e, 's, 'n) external \<Rightarrow> ustr \<Rightarrow> py_exception + 'e" where
  "parse_part E p =
     (if \<not> contains p (asc ''='') then sympify E p
      else
        on_success (sympify E (split p 61 ! 0)) (\<lambda>lhs.
        on_success (sympify E (split p 61 ! 1)) (\<lambda>rhs.
        Eq E lhs rhs)))"

text \<open>\<^verbatim>\<open>vars[0] if vars else self.x\<close> for \<^verbatim>\<open>vars = list(expr.free_symbols)\<close>.\<close>

definition solve_for_of :: "('e, 's, 'n) external \<Rightarrow> symbol set \<Rightarrow> symbol" where
  "solve_for_of E fs =
     (let vars = list_of_set E fs in if vars \<noteq> [] then hd vars else Symbol (asc ''x''))"

text \<open>The body of the \<^verbatim>\<open>try\<close> block.\<close>

definition solve_generic_try :: "('e, 's, 'n) external \<Rightarrow> ustr \<Rightarrow> py_exception + ustr \<times> ustr" where
  "solve_generic_try E expression =
     (if is_system expression then
        let parts = map strip (split (str_replace expression (asc '';'') (asc '','')) 44) in
        on_success (map_result (parse_part E) parts) (\<lambda>eqs.
        on_success (map_result (free_symbols E) eqs) (\<lambda>fss.
        let vars_to_solve = list_of_set E (\<Union> (set fss));
            vars_to_solve = (if vars_to_solve = [] then [Symbol (asc ''x'')] else vars_to_solve)
        in
        on_success (solve_system E eqs vars_to_solve) (\<lambda>sol.
        on_success (latex E sol) (\<lambda>solution_latex.
        on_success (map_result (str_expr E) eqs) (\<lambda>eq_texts.
        on_success (str_solution E sol) (\<lambda>sol_text.
        Inr (solution_latex,
             asc ''Solved system of equations for '' @ str_list (map (str_symbol E) vars_to_solve)
               @ asc '': '' @ str_list eq_texts @ asc '' -> '' @ sol_text)))))))
      else
        on_success (sympify E expression) (\<lambda>expr.
        on_success
          (if is_Equality E expr then
             on_success (free_symbols E expr) (\<lambda>fs.
             let solve_for = solve_for_of E fs in
             on_success (solve E expr solve_for) (\<lambda>sol.
             on_success (pretty E expr) (\<lambda>expr_text.
             on_success (str_solution E sol) (\<lambda>sol_text.
             Inr (sol,
                  asc ''Solved equation for '' @ str_symbol E solve_for @ asc '': ''
                    @ expr_text @ asc '' -> '' @ sol_text)))))
           else
             on_success (Eq E expr (Integer_zero E)) (\<lambda>eq.
             on_success (free_symbols E expr) (\<lambda>fs.
             let solve_for = solve_for_of E fs in
             on_success (solve E eq solve_for) (\<lambda>sol.
             on_success (pretty E expr) (\<lambda>expr_text.
             on_success (str_solution E sol) (\<lambda>sol_text.
             Inr (sol,
                  asc ''Solved expression '' @ expr_text @ asc '' = 0 for ''
                    @ str_symbol E solve_for @ asc '' -> '' @ sol_text)))))))
          (\<lambda>(sol, steps).
             on_success (latex E sol) (\<lambda>solution_latex. Inr (solution_latex, steps)))))"

text \<open>The whole function: \<^verbatim>\<open>except Exception as e\<close> turns every exception of the body into
  an ordinary result pair, so the function itself never raises.\<close>

definition solve_generic :: "('e, 's, 'n) external \<Rightarrow> ustr \<Rightarrow> py_exception + ustr \<times> ustr" where
  "solve_generic E expression =
     (case solve_generic_try E expression of
        Inr r \<Rightarrow> Inr r
      | Inl (Exception msg) \<Rightarrow>
          Inr (asc ''Error: '' @ msg, asc ''Failed to solve: '' @ expression))"

section \<open>GraphSampler: \<^verbatim>\<open>MathSolverService.build_graph_data\<close>\<close>

text \<open>The values of the returned dictionary.\<close>

datatype 'n graph_value = Floats "'n list" | OptionalFloats "'n option list" | Text ustr

text \<open>\<^verbatim>\<open>float(v) if sp.Float(v) else None\<close>.\<close>

definition sample_value :: "('e, 's, 'n) external \<Rightarrow> 'n \<Rightarrow> py_exception + 'n option" where
  "sample_value E v =
     on_success (Float_bool E v) (\<lambda>b.
       if b then on_success (to_float E v) (\<lambda>f. Inr (Some f)) else Inr None)"

definition build_graph_data ::
  "('e, 's, 'n) external \<Rightarrow> ustr \<Rightarrow> py_exception + (ustr \<times> 'n graph_value) list" where
  "build_graph_data E expression =
     (let sym = Symbol (asc ''x'') in
      on_success (sympify E expression) (\<lambda>expr.
      on_success (lambdify E sym expr) (\<lambda>func.
      let xs = linspace E (- 10) 10 400 in
      on_success (func xs) (\<lambda>ys.
      on_success (map_result (sample_value E) ys) (\<lambda>y.
      Inr [(asc ''x'', Floats xs), (asc ''y'', OptionalFloats y),
           (asc ''expression'', Text expression)])))))"

section \<open>AdmissionController: \<^verbatim>\<open>_rate_limit\<close>\<close>

text \<open>The module-level dictionary \<^verbatim>\<open>_RATE_LIMIT_BUCKET\<close>, from identity to the list of
  recorded timestamps. Timestamps are Python floats, modelled as reals: the code only
  compares them and subtracts the window length once.\<close>

type_synonym buckets = "ustr \<rightharpoonup> real list"

definition MAX_CALLS :: nat where
  "MAX_CALLS = 30"

definition WINDOW_SECONDS :: real where
  "WINDOW_SECONDS = 60"

text \<open>The result is the dictionary after the call, and the exception raised or nothing.
  \<^verbatim>\<open>setdefault\<close> creates the entry, the slice assignment prunes the list in place, so
  both happen on a denied call too.\<close>

definition rate_limit :: "buckets \<Rightarrow> ustr \<Rightarrow> real \<Rightarrow> buckets \<times> (http_exception + unit)" where
  "rate_limit B user_identifier now =
     (let window_start = now - WINDOW_SECONDS;
          bucket = (case B user_identifier of None \<Rightarrow> [] | Some b \<Rightarrow> b);
          bucket = filter (\<lambda>t. window_start \<le> t) bucket
      in
        if MAX_CALLS \<le> length bucket
        then (B(user_identifier \<mapsto> bucket),
              Inl (HTTPException 429 (asc ''Rate limit exceeded. Please slow down.'')))
        else (B(user_identifier \<mapsto> bucket @ [now]), Inr ()))"

section \<open>The pipeline: \<^verbatim>\<open>solve_equation\<close>\<close>

record 'n SolveResponse =
  expression :: ustr
  solution :: ustr
  steps :: ustr
  graph_data :: "(ustr \<times> 'n graph_value) list option"
  confidence :: real

definition forbidden :: "ustr list" where
  "forbidden = [asc ''__'', asc ''import'', asc ''exec'', asc ''lambda'']"

text \<open>The route handler. \<open>user_id\<close> is \<^verbatim>\<open>str(current_user.id)\<close> and \<open>now\<close> is \<^verbatim>\<open>time.time()\<close>;
  the result is the dictionary of the rate limiter after the request, and the
  \<^verbatim>\<open>HTTPException\<close> raised or the response returned.\<close>

definition solve_equation ::
  "('e, 's, 'n) external \<Rightarrow> buckets \<Rightarrow> ustr \<Rightarrow> ustr \<Rightarrow> real
     \<Rightarrow> buckets \<times> (http_exception + 'n SolveResponse)" where
  "solve_equation E B image_base64 user_id now =
     (case rate_limit B user_id now of
        (B', Inl exc) \<Rightarrow> (B', Inl exc)
      | (B', Inr _) \<Rightarrow>
          (B',
           if image_base64 = [] then Inl (HTTPException 400 (asc ''Image is required''))
           else
             case extract_math_from_image E image_base64 of (latex_text, conf) \<Rightarrow>
               if latex_text = [] then Inl (HTTPException 422 (asc ''Unable to read equation''))
               else if list_ex (\<lambda>bad. contains latex_text bad) forbidden
                 then Inl (HTTPException 400 (asc ''Invalid expression content''))
               else
                 case solve_generic E latex_text of
                   Inl (Exception msg) \<Rightarrow>
                     Inl (HTTPException 422 (asc ''Could not solve expression: '' @ msg))
                 | Inr (solution_latex, steps_text) \<Rightarrow>
                     let graph = (case build_graph_data E latex_text of
                                    Inl e \<Rightarrow> None | Inr g \<Rightarrow> Some g)
                     in Inr \<lparr>expression = latex_text, solution = solution_latex,
                             steps = steps_text, graph_data = graph, confidence = conf\<rparr>))"

section \<open>Definitions used to state the properties\<close>

text \<open>
  The characters the table rewrites one by one: \<^verbatim>\<open>x\<close>, the multiplication and division
  signs, the two dashes, and the square and curly brackets.
\<close>

definition rewritten_chars :: "nat list" where
  "rewritten_chars = [120, 215, 247, 8722, 8211, 91, 93, 123, 125]"

text \<open>
  What the first twelve rules of the table do to one character.
\<close>

definition subst_char :: "nat \<Rightarrow> nat" where
  "subst_char c =
     (if c = 120 \<or> c = 215 then 42
      else if c = 247 then 47
      else if c = 8722 \<or> c = 8211 then 45
      else if c = 91 \<or> c = 123 then 40
      else if c = 93 \<or> c = 125 then 41
      else c)"

text \<open>
  The multi-letter tokens that the table rewrites into something else.
\<close>

definition alias_tokens :: "ustr list" where
  "alias_tokens = map fst (filter (\<lambda>(old, new). 1 < length old \<and> old \<noteq> new) replacements)"

text \<open>
  The first character of a text that is the name of one of the given symbols: the
  variable met first when the text is read from left to right.
\<close>

definition first_variable :: "symbol set \<Rightarrow> ustr \<Rightarrow> nat option" where
  "first_variable fs txt = find (\<lambda>c. Symbol [c] \<in> fs) txt"

text \<open>
  A sequence of calls of \<^verbatim>\<open>_rate_limit\<close>, each with its identity and its time: the
  dictionary after the last call and the calls that were admitted.
\<close>

fun serve :: "buckets \<Rightarrow> (ustr \<times> real) list \<Rightarrow> buckets \<times> (ustr \<times> real) list" where
  "serve B [] = (B, [])"
| "serve B ((u, now) # calls) =
     (case rate_limit B u now of
        (B', Inl exc) \<Rightarrow> serve B' calls
      | (B', Inr ok) \<Rightarrow>
          (case serve B' calls of (B'', admitted) \<Rightarrow> (B'', (u, now) # admitted)))"

text \<open>
  The list recorded for an identity, empty when the identity has no entry.
\<close>

definition bucket_of :: "buckets \<Rightarrow> ustr \<Rightarrow> real list" where
  "bucket_of B u = (case B u of None \<Rightarrow> [] | Some b \<Rightarrow> b)"

text \<open>
  A call of identity \<open>u\<close> inside the window of length \<^verbatim>\<open>_WINDOW_SECONDS\<close> that starts at \<open>a\<close>.
\<close>

definition in_window :: "ustr \<Rightarrow> real \<Rightarrow> ustr \<times> real \<Rightarrow> bool" where
  "in_window u a call = (fst call = u \<and> a \<le> snd call \<and> snd call \<le> a + WINDOW_SECONDS)"

text \<open>
  No list of the dictionary is longer than \<^verbatim>\<open>_MAX_CALLS\<close>.
\<close>

definition bounded :: "buckets \<Rightarrow> bool" where
  "bounded B = (\<forall>u. length (bucket_of B u) \<le> MAX_CALLS)"

text \<open>
  Thirty calls of one identity at the same time.
\<close>

definition thirty_calls :: "(ustr \<times> real) list" where
  "thirty_calls = replicate 30 (asc ''u1'', 100)"

text \<open>
  A deterministic stand-in for the external capabilities, used to run the pipeline on
  concrete inputs. The recognizer returns the text \<open>raw\<close> for every image; only the
  payload \<^verbatim>\<open>aGk=\<close> decodes to an image; the parser knows the two expressions \<^verbatim>\<open>Eq(y, z)\<close> and \<^verbatim>\<open>e*ec\<close> and
  raises on everything else; a set of symbols is listed in the fixed order \<^verbatim>\<open>z, y, ec, e\<close>.
\<close>

definition stub :: "ustr \<Rightarrow> (ustr, ustr, int) external" where
  "stub raw =
     \<lparr>open_image = (\<lambda>b. if b = asc ''aGk='' then Inr [[0, 200]]
                          else Inl (Exception (asc ''cannot identify image file''))),
      image_to_string = (\<lambda>img. Inr raw),
      sympify = (\<lambda>s. if s = asc ''Eq(*[y,z])'' \<or> s = asc ''e*ec'' then Inr s
                       else Inl (Exception (asc ''could not parse''))),
      Eq = (\<lambda>l r. Inr (asc ''Eq('' @ l @ asc '', '' @ r @ asc '')'')),
      Integer_zero = asc ''0'',
      is_Equality = (\<lambda>e. starts_with e (asc ''Eq('')),
      free_symbols = (\<lambda>e. Inr (if e = asc ''Eq(*[y,z])'' then {Symbol (asc ''y''), Symbol (asc ''z'')}
                                  else if e = asc ''e*ec'' then {Symbol (asc ''e''), Symbol (asc ''ec'')}
                                  else {})),
      list_of_set = (\<lambda>S. filter (\<lambda>v. v \<in> S)
                        [Symbol (asc ''z''), Symbol (asc ''y''), Symbol (asc ''ec''), Symbol (asc ''e'')]),
      solve = (\<lambda>e v. Inr (if e = asc ''Eq(*[y,z])''
                               then (if v = Symbol (asc ''z'') then asc ''[y]'' else asc ''[z]'')
                               else asc ''[0]'')),
      solve_system = (\<lambda>es vs. Inr (asc ''[]'')),
      latex = (\<lambda>s. Inr s),
      pretty = (\<lambda>e. Inr (if e = asc ''Eq(*[y,z])'' then asc ''y = z'' else e)),
      str_expr = (\<lambda>e. Inr e),
      str_symbol = (\<lambda>v. case v of Symbol n \<Rightarrow> n),
      str_solution = (\<lambda>s. Inr s),
      lambdify = (\<lambda>v e. Inl (Exception (asc ''not numeric''))),
      linspace = (\<lambda>a b n. []),
      Float_bool = (\<lambda>v. Inr (v \<noteq> 0)),
      to_float = (\<lambda>v. Inr v)\<rparr>"

text \<open>
  Stand-ins for NumPy numbers in concrete runs of the sampler: an exact rational, the
  not-a-number value and an infinity.
\<close>

datatype sample = Number rat | Nan | Infty

text \<open>
  The truth value of \<^verbatim>\<open>sp.Float(v)\<close> in the stand-in: false for zero only.
\<close>

definition sample_truth :: "sample \<Rightarrow> bool" where
  "sample_truth v = (v \<noteq> Number 0)"

text \<open>
  \<^verbatim>\<open>np.linspace(a, b, n)\<close> without rounding: \<open>n\<close> evenly spaced points from \<open>a\<close> to \<open>b\<close>, both
  included.
\<close>

definition linspace_exact :: "int \<Rightarrow> int \<Rightarrow> nat \<Rightarrow> sample list" where
  "linspace_exact a b n =
     map (\<lambda>i. Number (of_int a + of_int (b - a) * of_nat i / of_nat (n - 1))) [0..<n]"

text \<open>
  The functions of \<^verbatim>\<open>x + 10\<close> and of \<^verbatim>\<open>(x + 10)/(x**2 - 100)\<close> on one sample, as the array
  arithmetic computes them: a division of zero by zero is not a number, another division
  by zero is infinite.
\<close>

fun plus_ten :: "sample \<Rightarrow> sample" where
  "plus_ten (Number r) = Number (r + 10)"
| "plus_ten v = v"

fun quotient :: "sample \<Rightarrow> sample" where
  "quotient (Number r) =
     (if r * r - 100 = 0 then (if r + 10 = 0 then Nan else Infty)
      else Number ((r + 10) / (r * r - 100)))"
| "quotient v = v"

text \<open>
  A stand-in for the capabilities of the sampler: it parses the two expressions above and
  samples them exactly.
\<close>

definition graph_stub :: "(ustr, ustr, sample) external" where
  "graph_stub =
     \<lparr>open_image = (\<lambda>b. Inl (Exception (asc ''cannot identify image file''))),
      image_to_string = (\<lambda>img. Inr []),
      sympify = (\<lambda>s. if s = asc ''x+10'' \<or> s = asc ''(x+10)/(x^2-100)'' then Inr s
                       else Inl (Exception (asc ''could not parse''))),
      Eq = (\<lambda>l r. Inr (asc ''Eq('' @ l @ asc '', '' @ r @ asc '')'')),
      Integer_zero = asc ''0'',
      is_Equality = (\<lambda>e. False),
      free_symbols = (\<lambda>e. Inr {Symbol (asc ''x'')}),
      list_of_set = (\<lambda>S. filter (\<lambda>v. v \<in> S) [Symbol (asc ''x'')]),
      solve = (\<lambda>e v. Inr (asc ''[-10]'')),
      solve_system = (\<lambda>es vs. Inr (asc ''[]'')),
      latex = (\<lambda>s. Inr s),
      pretty = (\<lambda>e. Inr e),
      str_expr = (\<lambda>e. Inr e),
      str_symbol = (\<lambda>v. case v of Symbol n \<Rightarrow> n),
      str_solution = (\<lambda>s. Inr s),
      lambdify = (\<lambda>v e. if e = asc ''x+10'' then Inr (\<lambda>xs. Inr (map plus_ten xs))
                          else Inr (\<lambda>xs. Inr (map quotient xs))),
      linspace = linspace_exact,
      Float_bool = (\<lambda>v. Inr (sample_truth v)),
      to_float = (\<lambda>v. Inr v)\<rparr>"

section \<open>Strings and patterns\<close>

lemma starts_with_iff: "starts_with s p \<longleftrightarrow> (\<exists>v. s = p @ v)"
  by (induction s p rule: starts_with.induct) auto

lemma contains_iff: "contains s p \<longleftrightarrow> (\<exists>u v. s = u @ p @ v)"
proof (induction s)
  case Nil
  show ?case by simp
next
  case (Cons c cs)
  show ?case
  proof
    assume "contains (c # cs) p"
    then consider "starts_with (c # cs) p" | "contains cs p" by auto
    then show "\<exists>u v. c # cs = u @ p @ v"
    proof cases
      case 1
      then obtain v where "c # cs = p @ v" by (auto simp: starts_with_iff)
      then have "c # cs = [] @ p @ v" by simp
      then show ?thesis by blast
    next
      case 2
      then obtain u v where "cs = u @ p @ v" using Cons.IH by auto
      then have "c # cs = (c # u) @ p @ v" by simp
      then show ?thesis by blast
    qed
  next
    assume "\<exists>u v. c # cs = u @ p @ v"
    then obtain u v where uv: "c # cs = u @ p @ v" by blast
    show "contains (c # cs) p"
    proof (cases u)
      case Nil
      then have "starts_with (c # cs) p" using uv by (simp add: starts_with_iff)
      then show ?thesis by simp
    next
      case (Cons a u')
      then have "cs = u' @ p @ v" using uv by simp
      then show ?thesis using Cons.IH by auto
    qed
  qed
qed

lemma contains_single: "contains s [c] \<longleftrightarrow> c \<in> set s"
  by (induction s) auto

lemma contains_nonempty: "contains s p \<Longrightarrow> p \<noteq> [] \<Longrightarrow> s \<noteq> []"
  by (cases s) auto

lemma contains_filter:
  "\<forall>c\<in>set p. P c \<Longrightarrow> contains s p \<Longrightarrow> contains (filter P s) p"
proof -
  assume p: "\<forall>c\<in>set p. P c" and "contains s p"
  then obtain u v where "s = u @ p @ v" by (auto simp: contains_iff)
  then have "filter P s = filter P u @ p @ filter P v" using p by simp
  then show ?thesis unfolding contains_iff by blast
qed

text \<open>
  Neither pattern of the OCR service can match: after the set and the two literal
  braces, three characters are consumed, and the anchor only holds at position 0.
\<close>

lemma re_match_non_math: "re_match non_math_pattern pos s = None"
proof (cases s)
  case Nil
  then show ?thesis by (simp add: non_math_pattern_def)
next
  case (Cons a s1)
  show ?thesis
  proof (cases s1)
    case Nil
    then show ?thesis using Cons by (simp add: non_math_pattern_def)
  next
    case (Cons b s2)
    then show ?thesis using \<open>s = a # s1\<close>
      by (cases s2) (simp_all add: non_math_pattern_def)
  qed
qed

lemma re_sub_empty_non_math: "re_sub_empty non_math_pattern pos s = s"
  by (induction s arbitrary: pos) (simp_all add: re_match_non_math)

lemma re_match_math_char: "re_match math_char_pattern pos s = None"
proof (cases s)
  case Nil
  then show ?thesis by (simp add: math_char_pattern_def)
next
  case (Cons a s1)
  show ?thesis
  proof (cases s1)
    case Nil
    then show ?thesis using Cons by (simp add: math_char_pattern_def)
  next
    case (Cons b s2)
    then show ?thesis using \<open>s = a # s1\<close>
      by (cases s2) (simp_all add: math_char_pattern_def)
  qed
qed

lemma re_findall_count_math_char: "re_findall_count math_char_pattern pos s = 0"
  by (induction s arbitrary: pos) (simp_all add: re_match_math_char)

lemma str_replace_chars:
  "\<forall>c\<in>set s. P c \<Longrightarrow> \<forall>c\<in>set new. P c \<Longrightarrow> \<forall>c\<in>set (str_replace s old new). P c"
proof (induction s old new rule: str_replace.induct)
  case (1 old new)
  then show ?case by simp
next
  case (2 c cs old new)
  have "\<forall>c\<in>set (drop (length old) (c # cs)). P c"
    using 2(4) by (meson in_set_dropD)
  then show ?case using 2 by auto
qed

lemma str_replace_char:
  "str_replace s [c] [d] = map (\<lambda>a. if a = c then d else a) s"
  by (induction s) auto

lemma str_replace_removes: "x \<notin> set new \<Longrightarrow> x \<notin> set (str_replace s [x] new)"
  by (induction s) auto

lemma str_replace_absent: "old \<noteq> [] \<Longrightarrow> \<not> contains s old \<Longrightarrow> str_replace s old new = s"
  by (induction s) auto

lemma str_replace_same_aux: "new = old \<Longrightarrow> str_replace s old new = s"
proof (induction s old new rule: str_replace.induct)
  case (1 old new)
  then show ?case by simp
next
  case (2 c cs old new)
  show ?case
  proof (cases "old \<noteq> [] \<and> starts_with (c # cs) old")
    case True
    then obtain v where v: "c # cs = old @ v" by (auto simp: starts_with_iff)
    then have d: "drop (length old) (c # cs) = v" by (metis append_eq_conv_conj)
    have "str_replace (c # cs) old new = new @ str_replace (drop (length old) (c # cs)) old new"
      using True by simp
    also have "\<dots> = new @ v" using 2(2) True 2(4) d by simp
    finally show ?thesis using v 2(4) by simp
  next
    case False
    then show ?thesis using 2 by auto
  qed
qed

lemma str_replace_same: "str_replace s old old = s"
  by (simp add: str_replace_same_aux)

lemma strip_no_space: "\<forall>c\<in>set s. \<not> isspace c \<Longrightarrow> strip s = s"
proof -
  assume a: "\<forall>c\<in>set s. \<not> isspace c"
  have 1: "dropWhile isspace s = s" using a by (cases s) auto
  have "rev s = [] \<or> \<not> isspace (hd (rev s))"
    using a by (metis hd_in_set set_rev)
  then have 2: "dropWhile isspace (rev s) = rev s" by (simp add: dropWhile_eq_self_iff)
  show ?thesis by (simp add: strip_def 1 2)
qed

text \<open>
  A token that shares no character with \<open>old\<close> survives the replacement of \<open>old\<close>.
\<close>

lemma starts_with_replace:
  "old \<noteq> [] \<Longrightarrow> set p \<inter> set old = {} \<Longrightarrow> starts_with s p
     \<Longrightarrow> starts_with (str_replace s old new) p"
proof (induction p arbitrary: s)
  case Nil
  show ?case by simp
next
  case (Cons a p)
  obtain s' where s: "s = a # s'" and sp: "starts_with s' p"
    using Cons.prems(3) by (cases s) auto
  have "hd old \<noteq> a" using Cons.prems(1,2) by (cases old) auto
  then have "\<not> starts_with (a # s') old" using Cons.prems(1) by (cases old) auto
  then have "str_replace s old new = a # str_replace s' old new"
    using s Cons.prems(1) by simp
  moreover have "starts_with (str_replace s' old new) p"
    using Cons.prems(1,2) sp by (intro Cons.IH) auto
  ultimately show ?case by simp
qed

lemma contains_replace:
  "old \<noteq> [] \<Longrightarrow> p \<noteq> [] \<Longrightarrow> set p \<inter> set old = {} \<Longrightarrow> contains s p
     \<Longrightarrow> contains (str_replace s old new) p"
proof (induction s old new rule: str_replace.induct)
  case (1 old new)
  then show ?case by simp
next
  case (2 c cs old new)
  show ?case
  proof (cases "starts_with (c # cs) old")
    case True
    then obtain rest where rest: "c # cs = old @ rest" by (auto simp: starts_with_iff)
    then have d: "drop (length old) (c # cs) = rest" by (metis append_eq_conv_conj)
    obtain u v where uv: "old @ rest = u @ p @ v"
      using 2(7) rest by (auto simp: contains_iff)
    have "contains rest p"
    proof -
      from uv consider w where "old = u @ w" "w @ rest = p @ v"
        | w where "u = old @ w" "rest = w @ p @ v"
        by (auto simp: append_eq_append_conv2)
      then show ?thesis
      proof cases
        case 1
        show ?thesis
        proof (cases w)
          case Nil
          then have "rest = [] @ p @ v" using 1 by simp
          then show ?thesis unfolding contains_iff by blast
        next
          case (Cons x w')
          then have "hd p = x" using 1(2) 2(5) by (cases p) auto
          then have "hd p \<in> set old" using 1(1) Cons by simp
          moreover have "hd p \<in> set p" using 2(5) by simp
          ultimately show ?thesis using 2(6) by auto
        qed
      next
        case 2
        then show ?thesis unfolding contains_iff by blast
      qed
    qed
    then have "contains (str_replace (drop (length old) (c # cs)) old new) p"
      using 2(2) [OF 2(4) True 2(4) 2(5) 2(6)] d by simp
    then obtain u' v' where "str_replace (drop (length old) (c # cs)) old new = u' @ p @ v'"
      by (auto simp: contains_iff)
    then have "new @ str_replace (drop (length old) (c # cs)) old new = (new @ u') @ p @ v'"
      by simp
    then have "contains (new @ str_replace (drop (length old) (c # cs)) old new) p"
      unfolding contains_iff by blast
    then show ?thesis using True 2(4) by simp
  next
    case False
    then have r: "str_replace (c # cs) old new = c # str_replace cs old new"
      using 2(4) by simp
    show ?thesis
    proof (cases "starts_with (c # cs) p")
      case True
      then have "starts_with (str_replace (c # cs) old new) p"
        using 2(4) 2(6) by (intro starts_with_replace) auto
      then show ?thesis unfolding r by simp
    next
      case F: False
      then have "contains cs p" using 2(7) by simp
      then have "contains (str_replace cs old new) p"
        using 2(3) [OF 2(4) False 2(4) 2(5) 2(6)] by simp
      then show ?thesis unfolding r by simp
    qed
  qed
qed

section \<open>TextSanitizer\<close>

lemma apply_replacements_chars:
  "\<forall>c\<in>set s. P c \<Longrightarrow> \<forall>r\<in>set rs. \<forall>c\<in>set (snd r). P c
     \<Longrightarrow> \<forall>c\<in>set (apply_replacements rs s). P c"
proof (induction rs s rule: apply_replacements.induct)
  case (1 t)
  then show ?case by simp
next
  case (2 old new rs t)
  have "\<forall>c\<in>set (str_replace t old new). P c"
    using 2(2,3) by (intro str_replace_chars) auto
  then show ?case using 2 by auto
qed

lemma apply_replacements_removes:
  "\<exists>n. ([x], n) \<in> set rs \<Longrightarrow> \<forall>r\<in>set rs. x \<notin> set (snd r)
     \<Longrightarrow> x \<notin> set (apply_replacements rs s)"
proof (induction rs s rule: apply_replacements.induct)
  case (1 t)
  then show ?case by simp
next
  case (2 old new rs t)
  show ?case
  proof (cases "old = [x]")
    case True
    have "x \<notin> set (str_replace t [x] new)"
      using 2(3) by (intro str_replace_removes) simp
    then have "\<forall>c\<in>set (str_replace t old new). c \<noteq> x" using True by auto
    moreover have "\<forall>r\<in>set rs. \<forall>c\<in>set (snd r). c \<noteq> x" using 2(3) by auto
    ultimately have "\<forall>c\<in>set (apply_replacements rs (str_replace t old new)). c \<noteq> x"
      by (rule apply_replacements_chars)
    then show ?thesis by auto
  next
    case False
    then have "\<exists>n. ([x], n) \<in> set rs" using 2(2) by auto
    then show ?thesis using 2 by simp
  qed
qed

lemma apply_replacements_append:
  "apply_replacements (rs @ rs') s = apply_replacements rs' (apply_replacements rs s)"
  by (induction rs s rule: apply_replacements.induct) auto

lemma apply_replacements_fixed:
  "\<forall>r\<in>set rs. fst r \<noteq> [] \<and> (fst r = snd r \<or> \<not> contains t (fst r))
     \<Longrightarrow> apply_replacements rs t = t"
proof (induction rs)
  case Nil
  show ?case by simp
next
  case (Cons r rs)
  obtain old new where r: "r = (old, new)" by (cases r)
  have "str_replace t old new = t"
    using Cons.prems r by (auto simp: str_replace_same str_replace_absent)
  then show ?case using Cons r by simp
qed

lemma contains_apply_replacements:
  "p \<noteq> [] \<Longrightarrow> \<forall>r\<in>set rs. fst r \<noteq> [] \<and> set p \<inter> set (fst r) = {} \<Longrightarrow> contains s p
     \<Longrightarrow> contains (apply_replacements rs s) p"
proof (induction rs s rule: apply_replacements.induct)
  case (1 t)
  then show ?case by simp
next
  case (2 old new rs t)
  have "contains (str_replace t old new) p"
    using 2(2,3,4) by (intro contains_replace) auto
  then show ?case using 2 by simp
qed

lemma replacements_no_space: "\<forall>r\<in>set replacements. \<forall>c\<in>set (snd r). \<not> isspace c"
  by (simp add: replacements_def asc_def isspace_def)

lemma apply_replacements_no_space:
  "\<forall>c\<in>set s. \<not> isspace c \<Longrightarrow> \<forall>c\<in>set (apply_replacements replacements s). \<not> isspace c"
proof -
  assume "\<forall>c\<in>set s. \<not> isspace c"
  then show ?thesis
    using replacements_no_space by (rule apply_replacements_chars)
qed

text \<open>
  The last two steps of \<^verbatim>\<open>_clean_math_text\<close> change nothing: the pattern never matches,
  and no whitespace is left to strip.
\<close>

lemma clean_math_text_eq:
  "clean_math_text s = apply_replacements replacements (filter (\<lambda>c. \<not> isspace c) s)"
proof -
  define t where "t = apply_replacements replacements (filter (\<lambda>c. \<not> isspace c) s)"
  have "\<forall>c\<in>set t. \<not> isspace c"
    unfolding t_def by (rule apply_replacements_no_space) simp
  then have "strip t = t" by (rule strip_no_space)
  then show ?thesis
    unfolding clean_math_text_def Let_def re_sub_empty_non_math t_def .
qed

lemma clean_no_space: "\<forall>c\<in>set (clean_math_text s). \<not> isspace c"
  unfolding clean_math_text_eq by (rule apply_replacements_no_space) simp

lemma clean_no_rewritten: "x \<in> set rewritten_chars \<Longrightarrow> x \<notin> set (clean_math_text s)"
  unfolding clean_math_text_eq
proof (rule apply_replacements_removes)
  assume x: "x \<in> set rewritten_chars"
  show "\<exists>n. ([x], n) \<in> set replacements"
    using x by (auto simp: rewritten_chars_def replacements_def asc_def)
  show "\<forall>r\<in>set replacements. x \<notin> set (snd r)"
    using x unfolding rewritten_chars_def replacements_def asc_def by auto
qed

lemma single_char_rules:
  "apply_replacements (take 12 replacements) s = map subst_char s"
  by (simp add: replacements_def asc_def str_replace_char str_replace_same subst_char_def)

lemma alias_tokens_eq:
  "alias_tokens = [asc ''sqrt'', asc ''pi'', asc ''int'', asc ''sum'', asc ''partial'', asc ''delta'',
     asc ''nabla'', asc ''ln'', asc ''log10'', asc ''arcsin'', asc ''arccos'', asc ''arctan'']"
  by (simp add: alias_tokens_def replacements_def asc_def)

lemma replacements_cases:
  "\<forall>r\<in>set replacements. fst r \<noteq> [] \<and>
     (fst r = snd r \<or> fst r \<in> set alias_tokens \<or>
      (\<exists>c\<in>set [120, 215, 247, 8722, 8211, 91, 93, 123, 125]. fst r = [c]))"
  by (simp add: alias_tokens_eq) (simp add: replacements_def asc_def)

lemma underscores_survive:
  assumes "contains raw (asc ''__'')"
  shows "contains (clean_math_text raw) (asc ''__'')"
  unfolding clean_math_text_eq
proof (rule contains_apply_replacements)
  show "asc ''__'' \<noteq> []" by (simp add: asc_def)
  show "\<forall>r\<in>set replacements. fst r \<noteq> [] \<and> set (asc ''__'') \<inter> set (fst r) = {}"
    by (simp add: replacements_def asc_def)
  have "\<forall>c\<in>set (asc ''__''). \<not> isspace c" by (simp add: asc_def isspace_def)
  then show "contains (filter (\<lambda>c. \<not> isspace c) raw) (asc ''__'')"
    using assms by (rule contains_filter)
qed

lemma clean_log1010: "clean_math_text (asc ''log1010'') = asc ''log10''"
  by (simp add: clean_math_text_eq replacements_def asc_def isspace_def)

lemma clean_log10: "clean_math_text (asc ''log10'') = asc ''log''"
  by (simp add: clean_math_text_eq replacements_def asc_def isspace_def)

lemma clean_2x3: "clean_math_text (asc '' 2 x 3 '') = asc ''2*3''"
  by (simp add: clean_math_text_eq replacements_def asc_def isspace_def)

lemma clean_exec: "clean_math_text (asc ''exec'') = asc ''e*ec''"
  by (simp add: clean_math_text_eq replacements_def asc_def isspace_def)

lemma clean_1plus: "clean_math_text (asc ''1+'') = asc ''1+''"
  by (simp add: clean_math_text_eq replacements_def asc_def isspace_def)

text \<open>
  Claim C10. For every input, the output of \<^verbatim>\<open>_clean_math_text\<close> contains no whitespace
  and none of the characters \<^verbatim>\<open>x\<close>, the multiplication sign, the division sign, \<^verbatim>\<open>[\<close>, \<^verbatim>\<open>]\<close>,
  \<^verbatim>\<open>{\<close>, \<^verbatim>\<open>}\<close> (nor the two dashes): the output is the input with its whitespace removed,
  every such character replaced by \<^verbatim>\<open>*\<close>, \<^verbatim>\<open>/\<close>, \<^verbatim>\<open>-\<close> or a round parenthesis, and the remaining
  rules of the table applied. So no cleaned expression names a variable by the letter
  \<^verbatim>\<open>x\<close>.
\<close>

theorem sanitizer_output_alphabet:
  "(\<forall>c\<in>set (clean_math_text s). \<not> isspace c \<and> c \<notin> set rewritten_chars)
   \<and> clean_math_text s =
       apply_replacements (drop 12 replacements) (map subst_char (filter (\<lambda>c. \<not> isspace c) s))"
proof
  show "\<forall>c\<in>set (clean_math_text s). \<not> isspace c \<and> c \<notin> set rewritten_chars"
    using clean_no_space [of s] clean_no_rewritten [of _ s] by blast
next
  have "replacements = take 12 replacements @ drop 12 replacements" by simp
  then have "apply_replacements replacements (filter (\<lambda>c. \<not> isspace c) s)
      = apply_replacements (drop 12 replacements)
          (apply_replacements (take 12 replacements) (filter (\<lambda>c. \<not> isspace c) s))"
    by (metis apply_replacements_append)
  then show "clean_math_text s =
       apply_replacements (drop 12 replacements) (map subst_char (filter (\<lambda>c. \<not> isspace c) s))"
    by (simp only: clean_math_text_eq single_char_rules)
qed

theorem sanitizer_output_alphabet_witness:
  "list_all (\<lambda>c. \<not> isspace c \<and> c \<notin> set rewritten_chars) (clean_math_text (asc '' 2 x 3 ''))
   \<and> clean_math_text (asc '' 2 x 3 '') =
       apply_replacements (drop 12 replacements)
         (map subst_char (filter (\<lambda>c. \<not> isspace c) (asc '' 2 x 3 '')))
   \<and> clean_math_text (asc '' 2 x 3 '') = asc ''2*3''"
  using sanitizer_output_alphabet [of "asc '' 2 x 3 ''"] clean_2x3
  unfolding list_all_iff by blast

text \<open>
  Claim C9, as stated, fails: the rule \<^verbatim>\<open>log10\<close> to \<^verbatim>\<open>log\<close> can rebuild its own pattern.
  The text \<^verbatim>\<open>log1010\<close> is cleaned to \<^verbatim>\<open>log10\<close>, and \<^verbatim>\<open>log10\<close> is cleaned to \<^verbatim>\<open>log\<close>.
\<close>

theorem sanitizer_not_idempotent:
  "clean_math_text (clean_math_text (asc ''log1010'')) \<noteq> clean_math_text (asc ''log1010'')"
  by (simp only: clean_log1010 clean_log10) (simp add: asc_def)

text \<open>
  Claim C9, amended. Cleaning is idempotent on every input whose cleaned text contains
  none of the multi-letter tokens that the table rewrites (\<^verbatim>\<open>sqrt\<close>, \<^verbatim>\<open>pi\<close>, \<^verbatim>\<open>int\<close>, \<^verbatim>\<open>sum\<close>,
  \<^verbatim>\<open>partial\<close>, \<^verbatim>\<open>delta\<close>, \<^verbatim>\<open>nabla\<close>, \<^verbatim>\<open>ln\<close>, \<^verbatim>\<open>log10\<close>,
  \<^verbatim>\<open>arcsin\<close>, \<^verbatim>\<open>arccos\<close>, \<^verbatim>\<open>arctan\<close>): then cleaning the cleaned text again
  returns it unchanged.
\<close>

theorem sanitizer_idempotent_without_alias:
  assumes "\<forall>p\<in>set alias_tokens. \<not> contains (clean_math_text s) p"
  shows "clean_math_text (clean_math_text s) = clean_math_text s"
proof -
  define t where "t = clean_math_text s"
  have sp: "filter (\<lambda>c. \<not> isspace c) t = t"
    using clean_no_space [of s] by (simp add: t_def)
  have "\<forall>r\<in>set replacements. fst r \<noteq> [] \<and> (fst r = snd r \<or> \<not> contains t (fst r))"
  proof
    fix r assume r: "r \<in> set replacements"
    then have ne: "fst r \<noteq> []" using replacements_cases by blast
    from r consider "fst r = snd r" | "fst r \<in> set alias_tokens"
      | c where "c \<in> set rewritten_chars" "fst r = [c]"
      using replacements_cases unfolding rewritten_chars_def by blast
    then have "fst r = snd r \<or> \<not> contains t (fst r)"
    proof cases
      case 1
      then show ?thesis by simp
    next
      case 2
      then show ?thesis using assms by (simp add: t_def)
    next
      case 3
      then show ?thesis using clean_no_rewritten [of c s] by (simp add: contains_single t_def)
    qed
    then show "fst r \<noteq> [] \<and> (fst r = snd r \<or> \<not> contains t (fst r))" using ne by simp
  qed
  then have "apply_replacements replacements t = t" by (rule apply_replacements_fixed)
  then have "clean_math_text t = t" by (simp only: clean_math_text_eq sp)
  then show ?thesis by (simp only: t_def)
qed

theorem sanitizer_idempotent_without_alias_witness:
  "list_all (\<lambda>p. \<not> contains (clean_math_text (asc '' 2 x 3 '')) p) alias_tokens
   \<and> clean_math_text (clean_math_text (asc '' 2 x 3 '')) = clean_math_text (asc '' 2 x 3 '')"
proof -
  have h: "\<forall>p\<in>set alias_tokens. \<not> contains (clean_math_text (asc '' 2 x 3 '')) p"
    by (simp only: clean_2x3 alias_tokens_eq) (simp add: asc_def)
  show ?thesis
    using sanitizer_idempotent_without_alias [OF h] h unfolding list_all_iff by simp
qed

section \<open>AdmissionController\<close>

lemma rate_limit_denied:
  "MAX_CALLS \<le> length (filter (\<lambda>t. now - WINDOW_SECONDS \<le> t) (bucket_of B u)) \<Longrightarrow>
   rate_limit B u now =
     (B(u \<mapsto> filter (\<lambda>t. now - WINDOW_SECONDS \<le> t) (bucket_of B u)),
      Inl (HTTPException 429 (asc ''Rate limit exceeded. Please slow down.'')))"
  by (simp add: rate_limit_def bucket_of_def Let_def)

lemma rate_limit_admitted:
  "\<not> MAX_CALLS \<le> length (filter (\<lambda>t. now - WINDOW_SECONDS \<le> t) (bucket_of B u)) \<Longrightarrow>
   rate_limit B u now =
     (B(u \<mapsto> filter (\<lambda>t. now - WINDOW_SECONDS \<le> t) (bucket_of B u) @ [now]), Inr ())"
  by (simp add: rate_limit_def bucket_of_def Let_def)

lemma rate_limit_result:
  "snd (rate_limit B u now) = Inr () \<or>
   snd (rate_limit B u now) = Inl (HTTPException 429 (asc ''Rate limit exceeded. Please slow down.''))"
  by (simp add: rate_limit_def Let_def)

lemma rate_limit_first: "snd (rate_limit Map.empty u now) = Inr ()"
  by (simp add: rate_limit_def MAX_CALLS_def)

lemma bucket_of_upd: "bucket_of (B(u \<mapsto> b)) v = (if v = u then b else bucket_of B v)"
  by (simp add: bucket_of_def)

lemma rate_limit_bounded: "bounded B \<Longrightarrow> bounded (fst (rate_limit B u now))"
proof (cases "MAX_CALLS \<le> length (filter (\<lambda>t. now - WINDOW_SECONDS \<le> t) (bucket_of B u))")
  case True
  assume b: "bounded B"
  have "length (filter (\<lambda>t. now - WINDOW_SECONDS \<le> t) (bucket_of B u)) \<le> length (bucket_of B u)"
    by simp
  then have "length (filter (\<lambda>t. now - WINDOW_SECONDS \<le> t) (bucket_of B u)) \<le> MAX_CALLS"
    using b unfolding bounded_def by (meson le_trans)
  then show ?thesis using b by (simp add: rate_limit_denied [OF True] bounded_def bucket_of_upd)
next
  case False
  assume b: "bounded B"
  then show ?thesis using False by (simp add: rate_limit_admitted [OF False] bounded_def bucket_of_upd)
qed

lemma empty_bounded: "bounded Map.empty"
  by (simp add: bounded_def bucket_of_def)

lemma serve_subset: "set (snd (serve B calls)) \<subseteq> set calls"
proof (induction calls arbitrary: B)
  case Nil
  show ?case by simp
next
  case (Cons c calls)
  obtain u now where c: "c = (u, now)" by (cases c)
  obtain B' r where r: "rate_limit B u now = (B', r)" by (cases "rate_limit B u now")
  show ?case using Cons [of B'] c r by (cases r) (auto split: prod.splits)
qed

lemma serve_bounded: "bounded B \<Longrightarrow> bounded (fst (serve B calls))"
proof (induction calls arbitrary: B)
  case Nil
  then show ?case by simp
next
  case (Cons c calls)
  obtain u now where c: "c = (u, now)" by (cases c)
  obtain B' r where r: "rate_limit B u now = (B', r)" by (cases "rate_limit B u now")
  have "bounded B'" using rate_limit_bounded [OF Cons.prems, of u now] r by simp
  then have "bounded (fst (serve B' calls))" by (rule Cons.IH)
  then show ?case using c r by (cases r) (auto split: prod.splits)
qed

lemma serve_append:
  "serve B (xs @ ys) =
     (case serve B xs of (B', adm) \<Rightarrow> case serve B' ys of (B'', adm') \<Rightarrow> (B'', adm @ adm'))"
proof (induction xs arbitrary: B)
  case Nil
  show ?case by (simp split: prod.splits)
next
  case (Cons c xs)
  obtain u now where c: "c = (u, now)" by (cases c)
  obtain B' r where r: "rate_limit B u now = (B', r)" by (cases "rate_limit B u now")
  show ?case using Cons [of B'] c r by (cases r) (auto split: prod.splits)
qed

text \<open>
  The invariant behind the sliding window: for calls in time order, the timestamps
  still recorded from \<open>a\<close> on, together with the calls admitted later inside the window
  that starts at \<open>a\<close>, never exceed the capacity.
\<close>

lemma window_bound:
  "sorted (map snd calls) \<Longrightarrow> bounded B \<Longrightarrow>
   length (filter (\<lambda>t. a \<le> t) (bucket_of B u))
     + length (filter (in_window u a) (snd (serve B calls))) \<le> MAX_CALLS"
proof (induction calls arbitrary: B)
  case Nil
  have "length (filter (\<lambda>t. a \<le> t) (bucket_of B u)) \<le> length (bucket_of B u)" by simp
  also have "\<dots> \<le> MAX_CALLS" using Nil(2) by (simp add: bounded_def)
  finally show ?case by simp
next
  case (Cons c calls)
  obtain v now where c: "c = (v, now)" by (cases c)
  let ?pruned = "filter (\<lambda>t. now - WINDOW_SECONDS \<le> t) (bucket_of B v)"
  have srt: "sorted (map snd calls)" and later: "\<forall>d\<in>set calls. now \<le> snd d"
    using Cons.prems(1) c by auto
  obtain B' r where r: "rate_limit B v now = (B', r)" by (cases "rate_limit B v now")
  have bB': "bounded B'" using rate_limit_bounded [OF Cons.prems(2), of v now] r by simp
  note IH = Cons.IH [OF srt bB']
  show ?case
  proof (cases "v = u \<and> now \<le> a + WINDOW_SECONDS")
    case False
    show ?thesis
    proof (cases "v = u")
      case True
      then have far: "a + WINDOW_SECONDS < now" using False by simp
      have "\<forall>d\<in>set (snd (serve B (c # calls))). \<not> in_window u a d"
      proof
        fix d assume "d \<in> set (snd (serve B (c # calls)))"
        then have "d \<in> set (c # calls)" using serve_subset by blast
        then have "now \<le> snd d" using later c by auto
        then show "\<not> in_window u a d" using far by (simp add: in_window_def)
      qed
      then have "filter (in_window u a) (snd (serve B (c # calls))) = []"
        by (simp add: filter_empty_conv)
      moreover have "length (filter (\<lambda>t. a \<le> t) (bucket_of B u)) \<le> MAX_CALLS"
      proof -
        have "length (filter (\<lambda>t. a \<le> t) (bucket_of B u)) \<le> length (bucket_of B u)" by simp
        also have "\<dots> \<le> MAX_CALLS" using Cons.prems(2) by (simp add: bounded_def)
        finally show ?thesis .
      qed
      ultimately show ?thesis by simp
    next
      case False
      have same: "bucket_of B' u = bucket_of B u"
      proof (cases "MAX_CALLS \<le> length ?pruned")
        case True
        show ?thesis using r False by (auto simp: rate_limit_denied [OF True] bucket_of_upd)
      next
        case F: False
        show ?thesis using r False by (auto simp: rate_limit_admitted [OF F] bucket_of_upd)
      qed
      have "\<not> in_window u a (v, now)" using False by (simp add: in_window_def)
      then have "length (filter (in_window u a) (snd (serve B (c # calls))))
                 = length (filter (in_window u a) (snd (serve B' calls)))"
        using c r by (cases r) (auto split: prod.splits)
      then show ?thesis using IH same by simp
    qed
  next
    case True
    then have vu: "v = u" and near: "now \<le> a + WINDOW_SECONDS" by auto
    have keep: "filter (\<lambda>t. a \<le> t) ?pruned = filter (\<lambda>t. a \<le> t) (bucket_of B v)"
    proof -
      have "\<And>t. (now - WINDOW_SECONDS \<le> t \<and> a \<le> t) = (a \<le> t)" using near by auto
      then show ?thesis by simp
    qed
    show ?thesis
    proof (cases "MAX_CALLS \<le> length ?pruned")
      case True
      have B': "B' = B(v \<mapsto> ?pruned)" and "r = Inl (HTTPException 429 (asc ''Rate limit exceeded. Please slow down.''))"
        using r by (simp_all add: rate_limit_denied [OF True])
      then have "snd (serve B (c # calls)) = snd (serve B' calls)"
        using c r by simp
      moreover have "filter (\<lambda>t. a \<le> t) (bucket_of B' u) = filter (\<lambda>t. a \<le> t) (bucket_of B u)"
        using B' vu keep by (simp add: bucket_of_upd)
      ultimately show ?thesis using IH by simp
    next
      case False
      have B': "B' = B(v \<mapsto> ?pruned @ [now])" and rr: "r = Inr ()"
        using r by (simp_all add: rate_limit_admitted [OF False])
      then have s: "snd (serve B (c # calls)) = (v, now) # snd (serve B' calls)"
        using c r by (simp split: prod.splits)
      have b: "filter (\<lambda>t. a \<le> t) (bucket_of B' u)
               = filter (\<lambda>t. a \<le> t) (bucket_of B u) @ (if a \<le> now then [now] else [])"
        using B' vu keep by (simp add: bucket_of_upd)
      have w: "in_window u a (v, now) = (a \<le> now)" using vu near by (simp add: in_window_def)
      show ?thesis using IH s b w by (cases "a \<le> now") simp_all
    qed
  qed
qed

lemma rate_limit_fill:
  assumes "k < MAX_CALLS" and "bucket_of B u = replicate k t"
  shows "rate_limit B u t = (B(u \<mapsto> replicate (Suc k) t), Inr ())"
proof -
  have f: "filter (\<lambda>s. t - WINDOW_SECONDS \<le> s) (bucket_of B u) = replicate k t"
    using assms(2) by (simp add: WINDOW_SECONDS_def)
  have "\<not> MAX_CALLS \<le> length (filter (\<lambda>s. t - WINDOW_SECONDS \<le> s) (bucket_of B u))"
    using assms(1) f by simp
  then show ?thesis
    using f by (simp add: rate_limit_admitted replicate_append_same)
qed

lemma serve_fill:
  "k + n \<le> MAX_CALLS \<Longrightarrow> bucket_of B u = replicate k t \<Longrightarrow>
   snd (serve B (replicate n (u, t))) = replicate n (u, t) \<and>
   bucket_of (fst (serve B (replicate n (u, t)))) u = replicate (k + n) t"
proof (induction n arbitrary: B k)
  case 0
  then show ?case by simp
next
  case (Suc n)
  have k: "k < MAX_CALLS" using Suc.prems(1) by simp
  have r: "rate_limit B u t = (B(u \<mapsto> replicate (Suc k) t), Inr ())"
    using k Suc.prems(2) by (rule rate_limit_fill)
  have "bucket_of (B(u \<mapsto> replicate (Suc k) t)) u = replicate (Suc k) t"
    by (simp add: bucket_of_upd)
  moreover have "Suc k + n \<le> MAX_CALLS" using Suc.prems(1) by simp
  ultimately have "snd (serve (B(u \<mapsto> replicate (Suc k) t)) (replicate n (u, t))) = replicate n (u, t) \<and>
     bucket_of (fst (serve (B(u \<mapsto> replicate (Suc k) t)) (replicate n (u, t)))) u = replicate (Suc k + n) t"
    by (intro Suc.IH)
  then show ?case using r by (auto split: prod.splits)
qed

lemma serve_thirty:
  "snd (serve Map.empty thirty_calls) = thirty_calls"
  "bucket_of (fst (serve Map.empty thirty_calls)) (asc ''u1'') = replicate 30 100"
  using serve_fill [of 0 30 Map.empty "asc ''u1''" 100]
  by (simp_all add: thirty_calls_def MAX_CALLS_def bucket_of_def)

text \<open>
  Claim C4. Starting from the empty dictionary, for every sequence of calls made in
  time order, every identity \<open>u\<close> and every window of 60 seconds: at most 30 calls of \<open>u\<close>
  inside the window are admitted; after the calls the list of \<open>u\<close> holds at most 30
  timestamps of age below 60 seconds, whatever the current time; and when 30 calls of
  \<open>u\<close> were admitted in the 60 seconds up to \<open>now\<close>, the next call of \<open>u\<close> at \<open>now\<close> is
  denied with status 429.
\<close>

theorem admission_window_bound:
  assumes "sorted (map snd calls)"
  shows "length (filter (in_window u a) (snd (serve Map.empty calls))) \<le> MAX_CALLS
    \<and> length (filter (\<lambda>t. now - t < WINDOW_SECONDS) (bucket_of (fst (serve Map.empty calls)) u))
        \<le> MAX_CALLS
    \<and> ((\<forall>c\<in>set calls. snd c \<le> now) \<and>
        MAX_CALLS \<le> length (filter (in_window u (now - WINDOW_SECONDS)) (snd (serve Map.empty calls)))
        \<longrightarrow> snd (rate_limit (fst (serve Map.empty calls)) u now)
            = Inl (HTTPException 429 (asc ''Rate limit exceeded. Please slow down.'')))"
proof (intro conjI impI)
  show "length (filter (in_window u a) (snd (serve Map.empty calls))) \<le> MAX_CALLS"
    using window_bound [OF assms empty_bounded, of a u] by simp
next
  have "bounded (fst (serve Map.empty calls))" using empty_bounded by (rule serve_bounded)
  then have "length (bucket_of (fst (serve Map.empty calls)) u) \<le> MAX_CALLS"
    by (simp add: bounded_def)
  moreover have "length (filter (\<lambda>t. now - t < WINDOW_SECONDS) (bucket_of (fst (serve Map.empty calls)) u))
      \<le> length (bucket_of (fst (serve Map.empty calls)) u)" by simp
  ultimately show "length (filter (\<lambda>t. now - t < WINDOW_SECONDS) (bucket_of (fst (serve Map.empty calls)) u))
        \<le> MAX_CALLS" by (rule le_trans [rotated])
next
  assume h: "(\<forall>c\<in>set calls. snd c \<le> now) \<and>
        MAX_CALLS \<le> length (filter (in_window u (now - WINDOW_SECONDS)) (snd (serve Map.empty calls)))"
  obtain B1 adm where s: "serve Map.empty calls = (B1, adm)" by (cases "serve Map.empty calls")
  have srt: "sorted (map snd (calls @ [(u, now)]))"
    using assms h by (simp add: sorted_append)
  show "snd (rate_limit (fst (serve Map.empty calls)) u now)
            = Inl (HTTPException 429 (asc ''Rate limit exceeded. Please slow down.''))"
  proof (rule ccontr)
    assume "\<not> ?thesis"
    then have ok: "snd (rate_limit B1 u now) = Inr ()" using rate_limit_result [of B1 u now] s by simp
    obtain B2 where B2: "rate_limit B1 u now = (B2, Inr ())" using ok by (cases "rate_limit B1 u now") simp
    have "snd (serve Map.empty (calls @ [(u, now)])) = adm @ [(u, now)]"
      using s B2 by (simp add: serve_append)
    moreover have "in_window u (now - WINDOW_SECONDS) (u, now)"
      by (simp add: in_window_def WINDOW_SECONDS_def)
    ultimately have "length (filter (in_window u (now - WINDOW_SECONDS)) (snd (serve Map.empty (calls @ [(u, now)]))))
        = Suc (length (filter (in_window u (now - WINDOW_SECONDS)) adm))" by simp
    moreover have "length (filter (in_window u (now - WINDOW_SECONDS)) (snd (serve Map.empty (calls @ [(u, now)])))) \<le> MAX_CALLS"
      using window_bound [OF srt empty_bounded, of "now - WINDOW_SECONDS" u] by simp
    ultimately show False using h s by simp
  qed
qed

theorem admission_window_bound_witness:
  "sorted (map snd thirty_calls)
   \<and> list_all (\<lambda>c. snd c \<le> 100) thirty_calls
   \<and> MAX_CALLS \<le> length (filter (in_window (asc ''u1'') (100 - WINDOW_SECONDS)) (snd (serve Map.empty thirty_calls)))
   \<and> length (filter (in_window (asc ''u1'') 50) (snd (serve Map.empty thirty_calls))) \<le> MAX_CALLS
   \<and> snd (rate_limit (fst (serve Map.empty thirty_calls)) (asc ''u1'') 100)
       = Inl (HTTPException 429 (asc ''Rate limit exceeded. Please slow down.''))"
proof -
  have 1: "sorted (map snd thirty_calls)" by (simp add: thirty_calls_def)
  have 2: "\<forall>c\<in>set thirty_calls. snd c \<le> 100" by (simp add: thirty_calls_def)
  have 3: "MAX_CALLS \<le> length (filter (in_window (asc ''u1'') (100 - WINDOW_SECONDS)) (snd (serve Map.empty thirty_calls)))"
    by (simp add: serve_thirty(1)) (simp add: thirty_calls_def in_window_def MAX_CALLS_def WINDOW_SECONDS_def)
  show ?thesis
    using admission_window_bound [OF 1, of "asc ''u1''" 50 100] 1 2 3
    unfolding list_all_iff by simp
qed

text \<open>
  Claim C8. When a call is denied, the timestamp of the call is not recorded: the list
  of the identity is the old list without its expired entries, and no other entry of
  the dictionary changes.
\<close>

theorem denial_keeps_bucket:
  assumes "snd (rate_limit B u now) = Inl exc"
  shows "fst (rate_limit B u now)
         = B(u \<mapsto> filter (\<lambda>t. now - WINDOW_SECONDS \<le> t) (bucket_of B u))"
  using assms by (simp add: rate_limit_def bucket_of_def Let_def split: if_splits)

theorem denial_keeps_bucket_witness:
  "snd (rate_limit [asc ''u1'' \<mapsto> replicate 30 100] (asc ''u1'') 130)
     = Inl (HTTPException 429 (asc ''Rate limit exceeded. Please slow down.''))
   \<and> fst (rate_limit [asc ''u1'' \<mapsto> replicate 30 100] (asc ''u1'') 130) (asc ''u1'')
     = Some (replicate 30 100)"
proof -
  have d: "snd (rate_limit [asc ''u1'' \<mapsto> replicate 30 100] (asc ''u1'') 130)
     = Inl (HTTPException 429 (asc ''Rate limit exceeded. Please slow down.''))"
    by (simp add: rate_limit_def MAX_CALLS_def WINDOW_SECONDS_def)
  show ?thesis
    using denial_keeps_bucket [OF d] d by (simp add: bucket_of_def WINDOW_SECONDS_def)
qed

section \<open>The pipeline\<close>

lemma solve_equation_admitted:
  assumes "snd (rate_limit B user_id now) = Inr ()" and "image_base64 \<noteq> []"
  shows "snd (solve_equation E B image_base64 user_id now) =
     (case extract_math_from_image E image_base64 of (latex_text, conf) \<Rightarrow>
        if latex_text = [] then Inl (HTTPException 422 (asc ''Unable to read equation''))
        else if list_ex (\<lambda>bad. contains latex_text bad) forbidden
          then Inl (HTTPException 400 (asc ''Invalid expression content''))
        else
          case solve_generic E latex_text of
            Inl (Exception msg) \<Rightarrow>
              Inl (HTTPException 422 (asc ''Could not solve expression: '' @ msg))
          | Inr (solution_latex, steps_text) \<Rightarrow>
              let graph = (case build_graph_data E latex_text of
                             Inl e \<Rightarrow> None | Inr g \<Rightarrow> Some g)
              in Inr \<lparr>expression = latex_text, solution = solution_latex,
                      steps = steps_text, graph_data = graph, confidence = conf\<rparr>)"
proof -
  obtain B' where "rate_limit B user_id now = (B', Inr ())"
    using assms(1) by (cases "rate_limit B user_id now") simp
  then show ?thesis using assms(2) by (simp add: solve_equation_def)
qed

lemma extract_ok:
  assumes "open_image E (base64_part image_base64) = Inr img"
    and "image_to_string E (enhance_image img) = Inr raw"
  shows "extract_math_from_image E image_base64
         = (clean_math_text raw, calculate_confidence raw (clean_math_text raw))"
  using assms by (simp add: extract_math_from_image_def on_success_def Let_def)

lemma extract_decode_error:
  assumes "open_image E (base64_part image_base64) = Inl exc"
  shows "extract_math_from_image E image_base64 = ([], 0)"
  using assms by (simp add: extract_math_from_image_def on_success_def)

lemma forbidden_nonempty: "\<forall>bad\<in>set forbidden. bad \<noteq> []"
  by (simp add: forbidden_def asc_def)

lemma solve_generic_total: "\<exists>r. solve_generic E txt = Inr r"
  by (simp add: solve_generic_def split: sum.split py_exception.split)

subsection \<open>The stand-in capabilities on concrete inputs\<close>

lemma base64_part_plain: "base64_part (asc ''aGk='') = asc ''aGk=''"
  by (simp add: base64_part_def asc_def)

lemma base64_part_uri: "base64_part (asc ''data:image/png;base64,bm8='') = asc ''bm8=''"
  by (simp add: base64_part_def asc_def)

lemma stub_open_ok: "open_image (stub raw) (asc ''aGk='') = Inr [[0, 200]]"
  by (simp add: stub_def)

lemma stub_ocr: "image_to_string (stub raw) img = Inr raw"
  by (simp add: stub_def)

lemma stub_extract:
  "extract_math_from_image (stub raw) (asc ''aGk='')
     = (clean_math_text raw, calculate_confidence raw (clean_math_text raw))"
  by (rule extract_ok [where img = "[[0, 200]]"]) (simp_all add: base64_part_plain stub_open_ok stub_ocr)

lemma confidence_exec: "calculate_confidence (asc ''exec'') (asc ''e*ec'') = 40"
  by (simp add: calculate_confidence_def re_findall_count_math_char re_match_math_char asc_def
      del: re_findall_count.simps)

lemma not_system_exec: "\<not> is_system (asc ''e*ec'')"
  by (simp add: is_system_def asc_def)

lemma stub_solve_exec:
  "solve_generic (stub raw) (asc ''e*ec'')
     = Inr (asc ''[0]'', asc ''Solved expression e*ec = 0 for ec -> [0]'')"
  by (simp add: solve_generic_def solve_generic_try_def not_system_exec)
     (simp add: stub_def on_success_def solve_for_of_def asc_def)

lemma stub_graph: "build_graph_data (stub raw) txt = Inl (Exception (asc ''could not parse'')) \<or>
   build_graph_data (stub raw) txt = Inl (Exception (asc ''not numeric''))"
  by (simp add: build_graph_data_def stub_def on_success_def)

lemma not_forbidden_exec: "\<not> list_ex (\<lambda>bad. contains (asc ''e*ec'') bad) forbidden"
  by (simp add: forbidden_def asc_def)

lemma stub_try_1plus:
  "solve_generic_try (stub raw) (asc ''1+'') = Inl (Exception (asc ''could not parse''))"
proof -
  have "\<not> is_system (asc ''1+'')" by (simp add: is_system_def asc_def)
  then show ?thesis
    by (simp add: solve_generic_try_def) (simp add: stub_def on_success_def asc_def)
qed

lemma not_system_eq: "\<not> is_system (asc ''Eq(*[y,z])'')"
  by (simp add: is_system_def asc_def)

lemma stub_list: "list_of_set (stub raw) {Symbol (asc ''y''), Symbol (asc ''z'')} = [Symbol (asc ''z''), Symbol (asc ''y'')]"
  by (simp add: stub_def asc_def)

lemma not_system_x12: "\<not> is_system (asc ''x+1=2'')"
  by (simp add: is_system_def asc_def)

subsection \<open>Forbidden tokens\<close>

text \<open>
  Claim C1, as stated, fails: the raw text \<^verbatim>\<open>exec\<close> contains a forbidden token, but the
  table rewrites its \<^verbatim>\<open>x\<close> first, the check sees \<^verbatim>\<open>e*ec\<close>, and the request is answered
  with the result of the solver on the rewritten text.
\<close>

theorem exec_reaches_solver:
  "contains (asc ''exec'') (asc ''exec'')
   \<and> snd (solve_equation (stub (asc ''exec'')) Map.empty (asc ''aGk='') (asc ''u1'') 0)
     = Inr \<lparr>expression = asc ''e*ec'', solution = asc ''[0]'',
            steps = asc ''Solved expression e*ec = 0 for ec -> [0]'',
            graph_data = None, confidence = 40\<rparr>"
proof
  show "contains (asc ''exec'') (asc ''exec'')" by (simp add: asc_def)
next
  have ne: "asc ''aGk='' \<noteq> []" "asc ''e*ec'' \<noteq> []" by (simp_all add: asc_def)
  have g: "(case build_graph_data (stub (asc ''exec'')) (asc ''e*ec'') of Inl e \<Rightarrow> None | Inr g \<Rightarrow> Some g) = None"
    using stub_graph [of "asc ''exec''" "asc ''e*ec''"] by auto
  show "snd (solve_equation (stub (asc ''exec'')) Map.empty (asc ''aGk='') (asc ''u1'') 0)
     = Inr \<lparr>expression = asc ''e*ec'', solution = asc ''[0]'',
            steps = asc ''Solved expression e*ec = 0 for ec -> [0]'',
            graph_data = None, confidence = 40\<rparr>"
    by (simp add: solve_equation_admitted [OF rate_limit_first ne(1)] stub_extract clean_exec
        confidence_exec ne(2) not_forbidden_exec stub_solve_exec g)
qed

text \<open>
  Claim C1, amended. The check is made on the cleaned text: every recognized text whose
  cleaned form contains one of \<^verbatim>\<open>__\<close>, \<^verbatim>\<open>import\<close>, \<^verbatim>\<open>exec\<close>, \<^verbatim>\<open>lambda\<close> is answered with
  status 400 and no solver result; in particular every raw text that contains \<^verbatim>\<open>__\<close> is,
  whatever surrounds it.
\<close>

theorem forbidden_token_rejected:
  assumes "snd (rate_limit B user_id now) = Inr ()"
    and "image_base64 \<noteq> []"
    and "open_image E (base64_part image_base64) = Inr img"
    and "image_to_string E (enhance_image img) = Inr raw"
    and "contains raw (asc ''__'') \<or> (\<exists>bad\<in>set forbidden. contains (clean_math_text raw) bad)"
  shows "snd (solve_equation E B image_base64 user_id now)
         = Inl (HTTPException 400 (asc ''Invalid expression content''))"
proof -
  have "asc ''__'' \<in> set forbidden" by (simp add: forbidden_def)
  then obtain bad where bad: "bad \<in> set forbidden" "contains (clean_math_text raw) bad"
    using assms(5) underscores_survive by blast
  then have ne: "clean_math_text raw \<noteq> []"
    using forbidden_nonempty contains_nonempty by blast
  have ex: "list_ex (\<lambda>bad. contains (clean_math_text raw) bad) forbidden"
    using bad by (auto simp: list_ex_iff)
  show ?thesis
    using ne ex
    by (simp add: solve_equation_admitted [OF assms(1,2)] extract_ok [OF assms(3,4)])
qed

theorem forbidden_token_rejected_witness:
  "snd (rate_limit Map.empty (asc ''u1'') 0) = Inr ()
   \<and> asc ''aGk='' \<noteq> []
   \<and> open_image (stub (asc ''a __ b'')) (base64_part (asc ''aGk='')) = Inr [[0, 200]]
   \<and> image_to_string (stub (asc ''a __ b'')) (enhance_image [[0, 200]]) = Inr (asc ''a __ b'')
   \<and> contains (asc ''a __ b'') (asc ''__'')
   \<and> snd (solve_equation (stub (asc ''a __ b'')) Map.empty (asc ''aGk='') (asc ''u1'') 0)
       = Inl (HTTPException 400 (asc ''Invalid expression content''))"
proof -
  have 2: "asc ''aGk='' \<noteq> []" by (simp add: asc_def)
  have 3: "open_image (stub (asc ''a __ b'')) (base64_part (asc ''aGk='')) = Inr [[0, 200]]"
    by (simp add: base64_part_plain stub_open_ok)
  have 4: "image_to_string (stub (asc ''a __ b'')) (enhance_image [[0, 200]]) = Inr (asc ''a __ b'')"
    by (rule stub_ocr)
  have 5: "contains (asc ''a __ b'') (asc ''__'')" by (simp add: asc_def)
  show ?thesis
    using forbidden_token_rejected [OF rate_limit_first 2 3 4, of "asc ''u1''" 0] rate_limit_first 2 3 4 5
    by simp
qed

subsection \<open>Undecodable images\<close>

text \<open>
  Claim C7, as stated, fails: a payload that is not a decodable image is answered with
  status 422 and the detail of an unreadable equation, not with a bad-input status.
\<close>

theorem undecodable_image_not_bad_input:
  "open_image (stub (asc ''2+2'')) (base64_part (asc ''data:image/png;base64,bm8=''))
     = Inl (Exception (asc ''cannot identify image file''))
   \<and> snd (solve_equation (stub (asc ''2+2'')) Map.empty (asc ''data:image/png;base64,bm8='') (asc ''u1'') 0)
     = Inl (HTTPException 422 (asc ''Unable to read equation''))"
proof
  show o: "open_image (stub (asc ''2+2'')) (base64_part (asc ''data:image/png;base64,bm8=''))
     = Inl (Exception (asc ''cannot identify image file''))"
    by (simp add: base64_part_uri) (simp add: stub_def asc_def)
  have ne: "asc ''data:image/png;base64,bm8='' \<noteq> []" by (simp add: asc_def)
  show "snd (solve_equation (stub (asc ''2+2'')) Map.empty (asc ''data:image/png;base64,bm8='') (asc ''u1'') 0)
     = Inl (HTTPException 422 (asc ''Unable to read equation''))"
    by (simp add: solve_equation_admitted [OF rate_limit_first ne] extract_decode_error [OF o])
qed

text \<open>
  Claim C7, amended. For every non-empty payload that is not a decodable image, the
  exception is caught in the OCR service, which returns the empty text, and the request
  is answered with status 422, \<^verbatim>\<open>Unable to read equation\<close>: the same answer as for a
  decodable image whose recognized text is empty after cleaning.
\<close>

theorem undecodable_image_unprocessable:
  assumes "snd (rate_limit B user_id now) = Inr ()"
    and "image_base64 \<noteq> []"
    and "(\<exists>exc. open_image E (base64_part image_base64) = Inl exc) \<or>
         (\<exists>img raw. open_image E (base64_part image_base64) = Inr img \<and>
            image_to_string E (enhance_image img) = Inr raw \<and> clean_math_text raw = [])"
  shows "snd (solve_equation E B image_base64 user_id now)
         = Inl (HTTPException 422 (asc ''Unable to read equation''))"
proof -
  have "fst (extract_math_from_image E image_base64) = []"
    using assms(3) by (auto simp: extract_decode_error extract_ok)
  then obtain conf where "extract_math_from_image E image_base64 = ([], conf)"
    by (cases "extract_math_from_image E image_base64") simp
  then show ?thesis
    by (simp add: solve_equation_admitted [OF assms(1,2)])
qed

theorem undecodable_image_unprocessable_witness:
  "snd (rate_limit Map.empty (asc ''u1'') 0) = Inr ()
   \<and> asc ''bm8='' \<noteq> []
   \<and> open_image (stub []) (base64_part (asc ''bm8='')) = Inl (Exception (asc ''cannot identify image file''))
   \<and> snd (solve_equation (stub []) Map.empty (asc ''bm8='') (asc ''u1'') 0)
       = Inl (HTTPException 422 (asc ''Unable to read equation''))"
proof -
  have 2: "asc ''bm8='' \<noteq> []" by (simp add: asc_def)
  have 3: "open_image (stub []) (base64_part (asc ''bm8='')) = Inl (Exception (asc ''cannot identify image file''))"
    by (simp add: base64_part_def stub_def asc_def)
  have "(\<exists>exc. open_image (stub []) (base64_part (asc ''bm8='')) = Inl exc) \<or>
         (\<exists>img raw. open_image (stub []) (base64_part (asc ''bm8='')) = Inr img \<and>
            image_to_string (stub []) (enhance_image img) = Inr raw \<and> clean_math_text raw = [])"
    using 3 by simp
  then show ?thesis
    using undecodable_image_unprocessable [OF rate_limit_first 2, of "stub []" "asc ''u1''" 0]
      rate_limit_first 2 3 by simp
qed

subsection \<open>Exceptions of the algebra capability\<close>

text \<open>
  Claim C2 fails on the code. When the algebra capability raises inside \<^verbatim>\<open>solve_generic\<close>,
  the exception is caught there and returned as an ordinary pair, so the handler of
  the route that would answer 422 is never entered: the request is answered with a
  successful response whose solution is the text \<^verbatim>\<open>Error: \<close> followed by the message.
\<close>

theorem solver_exception_returned_as_success:
  assumes "snd (rate_limit B user_id now) = Inr ()"
    and "image_base64 \<noteq> []"
    and "extract_math_from_image E image_base64 = (latex_text, conf)"
    and "latex_text \<noteq> []"
    and "\<not> list_ex (\<lambda>bad. contains latex_text bad) forbidden"
    and "solve_generic_try E latex_text = Inl (Exception msg)"
  shows "snd (solve_equation E B image_base64 user_id now)
         = Inr \<lparr>expression = latex_text, solution = asc ''Error: '' @ msg,
                steps = asc ''Failed to solve: '' @ latex_text,
                graph_data = (case build_graph_data E latex_text of Inl e \<Rightarrow> None | Inr g \<Rightarrow> Some g),
                confidence = conf\<rparr>"
  using assms(3-6)
  by (simp add: solve_equation_admitted [OF assms(1,2)] solve_generic_def)

theorem solver_exception_returned_as_success_witness:
  "snd (rate_limit Map.empty (asc ''u1'') 0) = Inr ()
   \<and> asc ''aGk='' \<noteq> []
   \<and> extract_math_from_image (stub (asc ''1+'')) (asc ''aGk='') = (asc ''1+'', 40)
   \<and> asc ''1+'' \<noteq> []
   \<and> \<not> list_ex (\<lambda>bad. contains (asc ''1+'') bad) forbidden
   \<and> solve_generic_try (stub (asc ''1+'')) (asc ''1+'') = Inl (Exception (asc ''could not parse''))
   \<and> snd (solve_equation (stub (asc ''1+'')) Map.empty (asc ''aGk='') (asc ''u1'') 0)
       = Inr \<lparr>expression = asc ''1+'', solution = asc ''Error: could not parse'',
              steps = asc ''Failed to solve: 1+'', graph_data = None, confidence = 40\<rparr>"
proof -
  have 2: "asc ''aGk='' \<noteq> []" by (simp add: asc_def)
  have c: "calculate_confidence (asc ''1+'') (asc ''1+'') = 40"
    by (simp add: calculate_confidence_def re_findall_count_math_char re_match_math_char asc_def
      del: re_findall_count.simps)
  have 3: "extract_math_from_image (stub (asc ''1+'')) (asc ''aGk='') = (asc ''1+'', 40)"
    by (simp add: stub_extract clean_1plus c)
  have 4: "asc ''1+'' \<noteq> []" by (simp add: asc_def)
  have 5: "\<not> list_ex (\<lambda>bad. contains (asc ''1+'') bad) forbidden"
    by (simp add: forbidden_def asc_def)
  have g: "(case build_graph_data (stub (asc ''1+'')) (asc ''1+'') of Inl e \<Rightarrow> None | Inr g \<Rightarrow> Some g) = None"
    using stub_graph [of "asc ''1+''" "asc ''1+''"] by auto
  have a: "asc ''Error: '' @ asc ''could not parse'' = asc ''Error: could not parse''"
     "asc ''Failed to solve: '' @ asc ''1+'' = asc ''Failed to solve: 1+''"
    by (simp_all add: asc_def)
  show ?thesis
    using solver_exception_returned_as_success [OF rate_limit_first 2 3 4 5 stub_try_1plus]
      rate_limit_first 2 3 4 5 stub_try_1plus g a by simp
qed

section \<open>Solver dispatch\<close>

text \<open>
  Claim C3. The text \<^verbatim>\<open>x+1=2\<close> has no system separator, so the whole text goes to
  \<^verbatim>\<open>sympify\<close>; only the system branch splits a text at \<^verbatim>\<open>=\<close>. Whenever the parser raises
  on the text, \<^verbatim>\<open>solve_generic\<close> returns the error pair, not a solution set.
\<close>

theorem unparsed_equation_is_error_pair:
  assumes "sympify E (asc ''x+1=2'') = Inl (Exception msg)"
  shows "solve_generic E (asc ''x+1=2'')
         = Inr (asc ''Error: '' @ msg, asc ''Failed to solve: '' @ asc ''x+1=2'')"
  using assms
  by (simp add: solve_generic_def solve_generic_try_def not_system_x12 on_success_def)

theorem unparsed_equation_is_error_pair_witness:
  "sympify (stub []) (asc ''x+1=2'') = Inl (Exception (asc ''could not parse''))
   \<and> solve_generic (stub []) (asc ''x+1=2'')
       = Inr (asc ''Error: '' @ asc ''could not parse'', asc ''Failed to solve: '' @ asc ''x+1=2'')"
proof -
  have 1: "sympify (stub []) (asc ''x+1=2'') = Inl (Exception (asc ''could not parse''))"
    by (simp add: stub_def asc_def)
  show ?thesis using unparsed_equation_is_error_pair [OF 1] 1 by simp
qed

text \<open>
  Claim C5, as stated, fails once the iteration order of the set of free symbols is
  not the order of the text: with the symbols \<^verbatim>\<open>y\<close> and \<^verbatim>\<open>z\<close> listed as \<^verbatim>\<open>z, y\<close>, the equation
  whose text names \<^verbatim>\<open>y\<close> first is solved for \<^verbatim>\<open>z\<close>.
\<close>

theorem solve_for_not_first_in_text:
  "free_symbols (stub []) (asc ''Eq(*[y,z])'') = Inr {Symbol (asc ''y''), Symbol (asc ''z'')}
   \<and> first_variable {Symbol (asc ''y''), Symbol (asc ''z'')} (asc ''Eq(*[y,z])'')
       = Some (of_char CHR ''y'')
   \<and> solve_generic (stub []) (asc ''Eq(*[y,z])'')
       = Inr (asc ''[y]'', asc ''Solved equation for z: y = z -> [y]'')"
proof (intro conjI)
  show "free_symbols (stub []) (asc ''Eq(*[y,z])'') = Inr {Symbol (asc ''y''), Symbol (asc ''z'')}"
    by (simp add: stub_def)
  show "first_variable {Symbol (asc ''y''), Symbol (asc ''z'')} (asc ''Eq(*[y,z])'')
       = Some (of_char CHR ''y'')"
    by (simp add: first_variable_def asc_def)
  show "solve_generic (stub []) (asc ''Eq(*[y,z])'')
       = Inr (asc ''[y]'', asc ''Solved equation for z: y = z -> [y]'')"
    by (simp add: solve_generic_def solve_generic_try_def not_system_eq)
       (simp add: stub_def on_success_def solve_for_of_def asc_def)
qed

text \<open>
  Claim C5, amended. For every text classified as an equation, the dispatcher solves
  for the first element of \<^verbatim>\<open>list(expr.free_symbols)\<close>, which is a member of the set of
  free symbols when the set is not empty, and for \<^verbatim>\<open>x\<close> when it is empty; the narrative
  names that variable.
\<close>

theorem equation_solved_for_listed_symbol:
  assumes "\<not> is_system txt"
    and "sympify E txt = Inr expr"
    and "is_Equality E expr"
    and "free_symbols E expr = Inr fs"
    and "set (list_of_set E fs) = fs"
    and "v = (if fs = {} then Symbol (asc ''x'') else hd (list_of_set E fs))"
    and "solve E expr v = Inr sol"
    and "pretty E expr = Inr expr_text"
    and "str_solution E sol = Inr sol_text"
    and "latex E sol = Inr solution_latex"
  shows "solve_generic E txt =
           Inr (solution_latex,
                asc ''Solved equation for '' @ str_symbol E v @ asc '': '' @ expr_text
                  @ asc '' -> '' @ sol_text)
         \<and> (fs \<noteq> {} \<longrightarrow> v \<in> fs)"
proof
  have e: "(list_of_set E fs = []) = (fs = {})" using assms(5) by auto
  then have v: "solve_for_of E fs = v"
    using assms(6) by (simp add: solve_for_of_def)
  show "solve_generic E txt =
           Inr (solution_latex,
                asc ''Solved equation for '' @ str_symbol E v @ asc '': '' @ expr_text
                  @ asc '' -> '' @ sol_text)"
    using assms(1-4,7-10) v
    by (simp add: solve_generic_def solve_generic_try_def on_success_def)
  show "fs \<noteq> {} \<longrightarrow> v \<in> fs"
  proof
    assume "fs \<noteq> {}"
    then have "list_of_set E fs \<noteq> []" using e by simp
    then have "hd (list_of_set E fs) \<in> set (list_of_set E fs)" by simp
    then show "v \<in> fs" using assms(5,6) \<open>fs \<noteq> {}\<close> by simp
  qed
qed

theorem equation_solved_for_listed_symbol_witness:
  "\<not> is_system (asc ''Eq(*[y,z])'')
   \<and> sympify (stub []) (asc ''Eq(*[y,z])'') = Inr (asc ''Eq(*[y,z])'')
   \<and> is_Equality (stub []) (asc ''Eq(*[y,z])'')
   \<and> free_symbols (stub []) (asc ''Eq(*[y,z])'') = Inr {Symbol (asc ''y''), Symbol (asc ''z'')}
   \<and> set (list_of_set (stub []) {Symbol (asc ''y''), Symbol (asc ''z'')}) = {Symbol (asc ''y''), Symbol (asc ''z'')}
   \<and> solve_generic (stub []) (asc ''Eq(*[y,z])'') =
        Inr (asc ''[y]'', asc ''Solved equation for '' @ asc ''z'' @ asc '': '' @ asc ''y = z''
               @ asc '' -> '' @ asc ''[y]'')
   \<and> Symbol (asc ''z'') \<in> {Symbol (asc ''y''), Symbol (asc ''z'')}"
proof -
  have 2: "sympify (stub []) (asc ''Eq(*[y,z])'') = Inr (asc ''Eq(*[y,z])'')"
    by (simp add: stub_def)
  have 3: "is_Equality (stub []) (asc ''Eq(*[y,z])'')"
    by (simp add: stub_def asc_def)
  have 4: "free_symbols (stub []) (asc ''Eq(*[y,z])'') = Inr {Symbol (asc ''y''), Symbol (asc ''z'')}"
    by (simp add: stub_def)
  have 5: "set (list_of_set (stub []) {Symbol (asc ''y''), Symbol (asc ''z'')}) = {Symbol (asc ''y''), Symbol (asc ''z'')}"
    by (auto simp: stub_list)
  have 6: "Symbol (asc ''z'') = (if {Symbol (asc ''y''), Symbol (asc ''z'')} = {} then Symbol (asc ''x'')
      else hd (list_of_set (stub []) {Symbol (asc ''y''), Symbol (asc ''z'')}))"
    by (simp add: stub_list)
  have 7: "solve (stub []) (asc ''Eq(*[y,z])'') (Symbol (asc ''z'')) = Inr (asc ''[y]'')"
    by (simp add: stub_def)
  have 8: "pretty (stub []) (asc ''Eq(*[y,z])'') = Inr (asc ''y = z'')"
    by (simp add: stub_def)
  have 9: "str_solution (stub []) (asc ''[y]'') = Inr (asc ''[y]'')" by (simp add: stub_def)
  have 10: "latex (stub []) (asc ''[y]'') = Inr (asc ''[y]'')" by (simp add: stub_def)
  have s: "str_symbol (stub []) (Symbol (asc ''z'')) = asc ''z''" by (simp add: stub_def)
  show ?thesis
    using equation_solved_for_listed_symbol [OF not_system_eq 2 3 4 5 6 7 8 9 10]
      not_system_eq 2 3 4 5 s by simp
qed

section \<open>GraphSampler\<close>

lemma map_result_all:
  "\<forall>a\<in>set xs. f a = Inr (g a) \<Longrightarrow> map_result f xs = Inr (map g xs)"
  by (induction xs) (simp_all add: on_success_def)

lemma map_result_raises:
  "a \<in> set xs \<Longrightarrow> f a = Inl e \<Longrightarrow> \<exists>e'. map_result f xs = Inl e'"
proof (induction xs)
  case Nil
  then show ?case by simp
next
  case (Cons b xs)
  show ?case
  proof (cases "f b")
    case (Inl e0)
    then show ?thesis by (simp add: on_success_def)
  next
    case (Inr y)
    then have "a \<in> set xs" using Cons.prems by auto
    then obtain e' where "map_result f xs = Inl e'" using Cons by blast
    then show ?thesis using Inr by (simp add: on_success_def)
  qed
qed

lemma sample_value_pinned:
  assumes "Float_bool E v = Inr b" and "b \<longrightarrow> to_float E v = Inr f"
  shows "sample_value E v = Inr (if b then Some f else None)"
  using assms by (simp add: sample_value_def on_success_def)

text \<open>
  Claim C6 fails on the code. Whenever the expression is parsed and sampled, the \<^verbatim>\<open>y\<close> list
  of the result holds \<^verbatim>\<open>None\<close> exactly at the samples \<open>v\<close> for which \<^verbatim>\<open>sp.Float(v)\<close> is false,
  and \<^verbatim>\<open>float(v)\<close> at every other sample. The test is the truth value of the number, which
  is false for zero: a sample that is defined and equal to zero is recorded as absent,
  and a sample that is not a number or infinite is recorded as a value.
\<close>

theorem graph_null_marks_falsy_samples:
  assumes "sympify E txt = Inr expr"
    and "lambdify E (Symbol (asc ''x'')) expr = Inr func"
    and "func (linspace E (- 10) 10 400) = Inr ys"
    and "\<forall>v\<in>set ys. Float_bool E v = Inr (truthy v) \<and> (truthy v \<longrightarrow> to_float E v = Inr (fl v))"
  shows "build_graph_data E txt =
           Inr [(asc ''x'', Floats (linspace E (- 10) 10 400)),
                (asc ''y'', OptionalFloats (map (\<lambda>v. if truthy v then Some (fl v) else None) ys)),
                (asc ''expression'', Text txt)]"
proof -
  have "\<forall>v\<in>set ys. sample_value E v = Inr (if truthy v then Some (fl v) else None)"
  proof
    fix v assume "v \<in> set ys"
    then have a: "Float_bool E v = Inr (truthy v)"
      and b: "truthy v \<longrightarrow> to_float E v = Inr (fl v)"
      using assms(4) by auto
    show "sample_value E v = Inr (if truthy v then Some (fl v) else None)"
      using a b by (rule sample_value_pinned)
  qed
  then have "map_result (sample_value E) ys
             = Inr (map (\<lambda>v. if truthy v then Some (fl v) else None) ys)"
    by (rule map_result_all)
  then show ?thesis
    using assms(1-3) by (simp add: build_graph_data_def on_success_def)
qed

text \<open>
  An exception at one sample ends the whole sampling; the route then returns no graph.
\<close>

lemma raising_sample_aborts_graph:
  assumes "sympify E txt = Inr expr"
    and "lambdify E (Symbol (asc ''x'')) expr = Inr func"
    and "func (linspace E (- 10) 10 400) = Inr ys"
    and "v \<in> set ys" and "Float_bool E v = Inl exc"
  shows "\<exists>e. build_graph_data E txt = Inl e"
proof -
  have "sample_value E v = Inl exc" using assms(5) by (simp add: sample_value_def on_success_def)
  with assms(4) have "\<exists>e. map_result (sample_value E) ys = Inl e"
    by (rule map_result_raises [where f = "sample_value E"])
  then obtain e where "map_result (sample_value E) ys = Inl e" ..
  then show ?thesis using assms(1-3) by (simp add: build_graph_data_def on_success_def)
qed

lemma linspace_first: "hd (linspace_exact (- 10) 10 400) = Number (- 10)"
  by (simp add: linspace_exact_def hd_map hd_upt)

lemma linspace_last: "last (linspace_exact (- 10) 10 400) = Number 10"
  by (simp add: linspace_exact_def last_map last_upt)

lemma linspace_length: "length (linspace_exact (- 10) 10 400) = 400"
  by (simp add: linspace_exact_def)

lemma linspace_nonempty: "linspace_exact (- 10) 10 400 \<noteq> []"
  using linspace_length by fastforce

theorem graph_null_marks_falsy_samples_witness:
  "sympify graph_stub (asc ''x+10'') = Inr (asc ''x+10'')
   \<and> list_all (\<lambda>v. Float_bool graph_stub v = Inr (sample_truth v) \<and> to_float graph_stub v = Inr v)
        (map plus_ten (linspace_exact (- 10) 10 400))
   \<and> build_graph_data graph_stub (asc ''x+10'') =
        Inr [(asc ''x'', Floats (linspace_exact (- 10) 10 400)),
             (asc ''y'', OptionalFloats (map (\<lambda>v. if sample_truth v then Some v else None)
                                        (map plus_ten (linspace_exact (- 10) 10 400)))),
             (asc ''expression'', Text (asc ''x+10''))]
   \<and> hd (map plus_ten (linspace_exact (- 10) 10 400)) = Number 0
   \<and> hd (map (\<lambda>v. if sample_truth v then Some v else None)
           (map plus_ten (linspace_exact (- 10) 10 400))) = None"
proof -
  have 1: "sympify graph_stub (asc ''x+10'') = Inr (asc ''x+10'')" by (simp add: graph_stub_def)
  have 2: "lambdify graph_stub (Symbol (asc ''x'')) (asc ''x+10'') = Inr (\<lambda>xs. Inr (map plus_ten xs))"
    by (simp add: graph_stub_def)
  have l: "linspace graph_stub (- 10) 10 400 = linspace_exact (- 10) 10 400"
    by (simp add: graph_stub_def)
  have 3: "(\<lambda>xs. Inr (map plus_ten xs)) (linspace graph_stub (- 10) 10 400)
           = (Inr (map plus_ten (linspace_exact (- 10) 10 400)) :: py_exception + sample list)"
    by (simp add: l)
  have 4: "\<forall>v\<in>set (map plus_ten (linspace_exact (- 10) 10 400)).
             Float_bool graph_stub v = Inr (sample_truth v)
             \<and> (sample_truth v \<longrightarrow> to_float graph_stub v = Inr v)"
    by (simp add: graph_stub_def)
  have 5: "list_all (\<lambda>v. Float_bool graph_stub v = Inr (sample_truth v) \<and> to_float graph_stub v = Inr v)
        (map plus_ten (linspace_exact (- 10) 10 400))"
    unfolding list_all_iff by (simp add: graph_stub_def)
  have h: "hd (map plus_ten (linspace_exact (- 10) 10 400)) = Number 0"
    using linspace_nonempty by (simp add: hd_map linspace_first)
  have n: "hd (map (\<lambda>v. if sample_truth v then Some v else None)
           (map plus_ten (linspace_exact (- 10) 10 400))) = None"
    using linspace_nonempty h by (simp add: hd_map sample_truth_def del: map_map)
  show ?thesis
    using graph_null_marks_falsy_samples [OF 1 2 3 4] 1 5 h n l by simp
qed

text \<open>
  For \<^verbatim>\<open>(x + 10)/(x**2 - 100)\<close> the first sample is not a number and the last is infinite;
  both are recorded as values.
\<close>

lemma undefined_samples_kept:
  "hd (map (\<lambda>v. if sample_truth v then Some v else None)
         (map quotient (linspace_exact (- 10) 10 400))) = Some Nan
   \<and> last (map (\<lambda>v. if sample_truth v then Some v else None)
         (map quotient (linspace_exact (- 10) 10 400))) = Some Infty"
proof
  have h: "hd (map quotient (linspace_exact (- 10) 10 400)) = Nan"
    using linspace_nonempty by (simp add: hd_map linspace_first)
  show "hd (map (\<lambda>v. if sample_truth v then Some v else None)
         (map quotient (linspace_exact (- 10) 10 400))) = Some Nan"
    using linspace_nonempty h by (simp add: hd_map sample_truth_def del: map_map)
  have t: "last (map quotient (linspace_exact (- 10) 10 400)) = Infty"
    using linspace_nonempty by (simp add: last_map linspace_last)
  show "last (map (\<lambda>v. if sample_truth v then Some v else None)
         (map quotient (linspace_exact (- 10) 10 400))) = Some Infty"
    using linspace_nonempty t by (simp add: last_map sample_truth_def del: map_map)
qed

end
